theory Spec2Isabelle
  imports Main "HOL-Library.AList" "HOL-Library.Sublist"
begin

section \<open>Python values used by the scheduler\<close>

text \<open>
  The exceptions the modelled code can raise. \<open>LookupError\<close> stands for the failure of
  the data source's task lookup, \<open>SolverError\<close> for a fault of a solver backend.
\<close>

datatype error =
    KeyError
  | IndexError
  | TypeError
  | AttributeError
  | NameError
  | LookupError
  | SolverError
  | ValueError string

text \<open>
  \<open>'{}'.format(n)\<close> for a Python int: the decimal digits, most significant first, with
  a leading minus sign for a negative number.
\<close>

definition digit_char :: "nat \<Rightarrow> char" where
  "digit_char d = char_of (48 + d)"

fun str_nat :: "nat \<Rightarrow> string" where
  "str_nat n = (if n < 10 then [digit_char n] else str_nat (n div 10) @ [digit_char (n mod 10)])"

declare str_nat.simps [simp del]

definition str_int :: "int \<Rightarrow> string" where
  "str_int n = (if n < 0 then CHR ''-'' # str_nat (nat (- n)) else str_nat (nat n))"

text \<open>
  \<open>int(s)\<close> on an ASCII string without underscores: surrounding white space (the
  characters 9 to 13 and the space) is dropped, a sign
  may come first, and at least one decimal digit must follow; anything else is a
  \<open>ValueError\<close>. \<open>s.split('_')\<close> cuts a string at every underscore.
\<close>

definition digit_val :: "char \<Rightarrow> nat" where
  "digit_val c = of_char c - 48"

definition nat_of_str :: "string \<Rightarrow> nat" where
  "nat_of_str s = foldl (\<lambda>a c. 10 * a + digit_val c) 0 s"

definition is_digit :: "char \<Rightarrow> bool" where
  "is_digit c = (48 \<le> (of_char c :: nat) \<and> (of_char c :: nat) \<le> 57)"

definition is_space :: "char \<Rightarrow> bool" where
  "is_space c = ((9 \<le> (of_char c :: nat) \<and> (of_char c :: nat) \<le> 13) \<or>
                 (of_char c :: nat) = 32)"

definition strip :: "string \<Rightarrow> string" where
  "strip s = rev (dropWhile is_space (rev (dropWhile is_space s)))"

definition py_int :: "string \<Rightarrow> error + int" where
  "py_int s =
     (let t = strip s;
          neg = (t \<noteq> [] \<and> hd t = CHR ''-'');
          ds = (if t \<noteq> [] \<and> (hd t = CHR ''-'' \<or> hd t = CHR ''+'') then tl t else t)
      in if ds \<noteq> [] \<and> list_all is_digit ds
         then Inr (if neg then - int (nat_of_str ds) else int (nat_of_str ds))
         else Inl (ValueError ''invalid literal for int() with base 10''))"

fun split_on :: "char \<Rightarrow> string \<Rightarrow> string list" where
  "split_on sep [] = [[]]"
| "split_on sep (c # s) =
     (if c = sep then [] # split_on sep s
      else (case split_on sep s of [] \<Rightarrow> [[c]] | p # ps \<Rightarrow> (c # p) # ps))"

text \<open>
  A dict comprehension: the pairs are stored in order, a later pair replacing an earlier
  one with the same key.
\<close>

definition dict_of :: "('k \<times> 'v) list \<Rightarrow> ('k \<rightharpoonup> 'v)" where
  "dict_of kvs = fold (\<lambda>kv m. m(fst kv \<mapsto> snd kv)) kvs Map.empty"

text \<open>
  A \<open>for\<close> loop whose body may raise: the state is threaded through the iterations and
  the first exception ends the loop.
\<close>

fun for_each :: "'a list \<Rightarrow> ('a \<Rightarrow> 's \<Rightarrow> error + 's) \<Rightarrow> 's \<Rightarrow> error + 's" where
  "for_each [] body s = Inr s"
| "for_each (a # as) body s =
     (case body a s of Inl e \<Rightarrow> Inl e | Inr s' \<Rightarrow> for_each as body s')"

section \<open>The schedule data source\<close>

text \<open>
  Modelled from the spec: the class \<open>JobShopData\<close> (module \<open>model_data\<close>) is not among
  the source files. Section 6 of the specification gives its read-only contract: the job
  identifiers, the resources, for each job its ordered task sequence, for each task its
  resource and duration, an upper bound on the makespan, and a lookup from (job, resource)
  to the task that runs there, which fails when there is no such task. The scheduler takes
  all of it as a parameter.
\<close>

record task =
  resource :: int
  duration :: int

record job_shop_data =
  jobs :: "int list"
  resources :: "int list"
  job_tasks :: "int \<rightharpoonup> task list"
  resource_job_tasks :: "int \<Rightarrow> int \<Rightarrow> task option"
  get_max_makespan :: int

definition get_resource_job_tasks :: "job_shop_data \<Rightarrow> int \<Rightarrow> int \<Rightarrow> error + task" where
  "get_resource_job_tasks md job res =
     (case resource_job_tasks md job res of None \<Rightarrow> Inl LookupError | Some t \<Rightarrow> Inr t)"

section \<open>Symbolic expressions and the constrained quadratic model\<close>

text \<open>
  \<open>Integer(label, lower_bound, upper_bound)\<close> and \<open>Binary(label)\<close> create a variable;
  arithmetic on variables and numbers builds an expression; \<open>e >= n\<close> is a comparison.
  An assignment gives every label a value.
\<close>

datatype variable = Integer string int int | Binary string

fun label :: "variable \<Rightarrow> string" where
  "label (Integer l lo hi) = l"
| "label (Binary l) = l"

datatype expr =
    Var variable
  | Num int
  | Add expr expr
  | Sub expr expr
  | Mul expr expr

datatype comparison = Ge expr int

fun eval_expr :: "(string \<Rightarrow> int) \<Rightarrow> expr \<Rightarrow> int" where
  "eval_expr \<sigma> (Var v) = \<sigma> (label v)"
| "eval_expr \<sigma> (Num n) = n"
| "eval_expr \<sigma> (Add a b) = eval_expr \<sigma> a + eval_expr \<sigma> b"
| "eval_expr \<sigma> (Sub a b) = eval_expr \<sigma> a - eval_expr \<sigma> b"
| "eval_expr \<sigma> (Mul a b) = eval_expr \<sigma> a * eval_expr \<sigma> b"

fun holds :: "(string \<Rightarrow> int) \<Rightarrow> comparison \<Rightarrow> bool" where
  "holds \<sigma> (Ge e n) = (eval_expr \<sigma> e \<ge> n)"

fun variables :: "expr \<Rightarrow> variable list" where
  "variables (Var v) = [v]"
| "variables (Num n) = []"
| "variables (Add a b) = variables a @ variables b"
| "variables (Sub a b) = variables a @ variables b"
| "variables (Mul a b) = variables a @ variables b"

fun variables_of :: "comparison \<Rightarrow> variable list" where
  "variables_of (Ge e n) = variables e"

text \<open>The degree of an expression: 1 is linear, 2 has a product of two variables.\<close>

fun degree :: "expr \<Rightarrow> nat" where
  "degree (Var v) = 1"
| "degree (Num n) = 0"
| "degree (Add a b) = max (degree a) (degree b)"
| "degree (Sub a b) = max (degree a) (degree b)"
| "degree (Mul a b) = degree a + degree b"

fun degree_of :: "comparison \<Rightarrow> nat" where
  "degree_of (Ge e n) = degree e"

text \<open>
  \<open>dimod.ConstrainedQuadraticModel\<close>: an objective and labelled constraints, kept in the
  order they were added. \<open>add_constraint\<close> refuses a label that is already in use.
\<close>

record cqm_model =
  objective :: expr
  constraints :: "(string \<times> comparison) list"

definition ConstrainedQuadraticModel :: cqm_model where
  "ConstrainedQuadraticModel = \<lparr>objective = Num 0, constraints = []\<rparr>"

definition add_constraint :: "cqm_model \<Rightarrow> comparison \<Rightarrow> string \<Rightarrow> error + cqm_model" where
  "add_constraint m c lbl =
     (if lbl \<in> set (map fst (constraints m))
      then Inl (ValueError ''a constraint with that label already exists'')
      else Inr (m\<lparr>constraints := constraints m @ [(lbl, c)]\<rparr>))"

definition set_objective :: "cqm_model \<Rightarrow> expr \<Rightarrow> cqm_model" where
  "set_objective m e = m\<lparr>objective := e\<rparr>"

definition feasible :: "cqm_model \<Rightarrow> (string \<Rightarrow> int) \<Rightarrow> bool" where
  "feasible m \<sigma> = list_all (\<lambda>lc. holds \<sigma> (snd lc)) (constraints m)"

section \<open>Sample sets\<close>

text \<open>
  \<open>dimod.SampleSet\<close>: rows of an assignment (a dict from variable label to value), its
  energy and its feasibility flag. \<open>filter\<close> keeps the rows a predicate accepts,
  \<open>truncate n\<close> the \<open>n\<close> rows of lowest energy, and \<open>first\<close> is the row of lowest
  energy, an error on an empty set. Energies are numbers; only their order is used, so
  their type is left open.
\<close>

record 'e sample_row =
  sample :: "(string \<times> int) list"
  energy :: 'e
  is_feasible :: bool

type_synonym 'e sampleset = "'e sample_row list"

definition filter_ss :: "('e sample_row \<Rightarrow> bool) \<Rightarrow> 'e sampleset \<Rightarrow> 'e sampleset" where
  "filter_ss p ss = filter p ss"

definition truncate_ss :: "nat \<Rightarrow> ('e::linorder) sampleset \<Rightarrow> 'e sampleset" where
  "truncate_ss n ss = take n (sort_key energy ss)"

definition first_ss :: "('e::linorder) sampleset \<Rightarrow> error + 'e sample_row" where
  "first_ss ss =
     (case sort_key energy ss of
        [] \<Rightarrow> Inl (ValueError ''SampleSet is empty'')
      | r # _ \<Rightarrow> Inr r)"

text \<open>Reading a key of a dict held as a list of items.\<close>

definition item :: "('k \<times> 'v) list \<Rightarrow> 'k \<Rightarrow> error + 'v" where
  "item d k = (case map_of d k of None \<Rightarrow> Inl KeyError | Some v \<Rightarrow> Inr v)"

section \<open>The model builder \<open>JobShopSchedulingCQM\<close>\<close>

text \<open>
  The object's fields. \<open>cqm\<close> is \<open>None\<close> until \<open>define_cqm_model\<close> has run; \<open>makespan\<close>
  is \<open>None\<close> for the empty placeholder the constructor stores until \<open>define_variables\<close>
  has run. \<open>solution\<close> maps (job, resource) to (task, start, duration), in insertion
  order.
\<close>

record jss =
  model_data :: job_shop_data
  cqm :: "cqm_model option"
  x :: "int \<times> int \<rightharpoonup> variable"
  y :: "int \<times> int \<times> int \<rightharpoonup> variable"
  makespan :: "variable option"
  best_sample :: "(string \<times> int) list"
  solution :: "((int \<times> int) \<times> (task \<times> int \<times> int)) list"
  completion_time :: int

definition JobShopSchedulingCQM :: "job_shop_data \<Rightarrow> jss" where
  "JobShopSchedulingCQM md =
     \<lparr>model_data = md, cqm = None, x = Map.empty, y = Map.empty, makespan = None,
      best_sample = [], solution = [], completion_time = 0\<rparr>"

definition define_cqm_model :: "jss \<Rightarrow> jss" where
  "define_cqm_model self = self\<lparr>cqm := Some ConstrainedQuadraticModel\<rparr>"

definition define_variables :: "job_shop_data \<Rightarrow> jss \<Rightarrow> jss" where
  "define_variables md self = self
     \<lparr>makespan := Some (Integer ''makespan'' 0 (get_max_makespan md)),
      x := dict_of [((j, i), Integer (''x'' @ str_int j @ ''_'' @ str_int i) 0 (get_max_makespan md)).
                     j \<leftarrow> jobs md, i \<leftarrow> resources md],
      y := dict_of [((j, k, i), Binary (''y'' @ str_int j @ ''_'' @ str_int k @ ''_'' @ str_int i)).
                     j \<leftarrow> jobs md, k \<leftarrow> jobs md, i \<leftarrow> resources md]\<rparr>"

text \<open>
  \<open>self.cqm.add_constraint(comparison, label=...)\<close>: the attribute is read first (an
  \<open>AttributeError\<close> while \<open>cqm\<close> is \<open>None\<close>), then the argument is evaluated (its dict
  reads may raise), then the model adds the constraint.
\<close>

definition self_cqm_add_constraint :: "jss \<Rightarrow> error + comparison \<Rightarrow> string \<Rightarrow> error + jss" where
  "self_cqm_add_constraint self arg lbl =
     (case cqm self of
        None \<Rightarrow> Inl AttributeError
      | Some m \<Rightarrow>
          (case arg of
             Inl e \<Rightarrow> Inl e
           | Inr c \<Rightarrow>
               (case add_constraint m c lbl of
                  Inl e \<Rightarrow> Inl e
                | Inr m' \<Rightarrow> Inr (self\<lparr>cqm := Some m'\<rparr>))))"

definition define_objective_function :: "jss \<Rightarrow> error + jss" where
  "define_objective_function self =
     (case cqm self of
        None \<Rightarrow> Inl AttributeError
      | Some m \<Rightarrow>
          (case makespan self of
             None \<Rightarrow> Inl TypeError
           | Some mk \<Rightarrow> Inr (self\<lparr>cqm := Some (set_objective m (Var mk))\<rparr>)))"

definition add_precedence_constraints :: "job_shop_data \<Rightarrow> jss \<Rightarrow> error + jss" where
  "add_precedence_constraints md self =
     for_each (jobs md) (\<lambda>job self.
       case job_tasks md job of
         None \<Rightarrow> Inl KeyError
       | Some ts \<Rightarrow>
           for_each (zip (butlast ts) (tl ts)) (\<lambda>(prev_task, curr_task) self.
             let machine_curr = resource curr_task;
                 machine_prev = resource prev_task
             in self_cqm_add_constraint self
                  (case x self (job, machine_curr) of
                     None \<Rightarrow> Inl KeyError
                   | Some x_curr \<Rightarrow>
                       (case x self (job, machine_prev) of
                          None \<Rightarrow> Inl KeyError
                        | Some x_prev \<Rightarrow>
                            Inr (Ge (Sub (Var x_curr) (Var x_prev)) (duration prev_task))))
                  (''pj'' @ str_int job @ ''_m'' @ str_int machine_curr)) self) self"

definition add_quadratic_overlap_constraint :: "job_shop_data \<Rightarrow> jss \<Rightarrow> error + jss" where
  "add_quadratic_overlap_constraint md self =
     for_each (jobs md) (\<lambda>j.
       for_each (jobs md) (\<lambda>k self.
         if j < k then
           for_each (resources md) (\<lambda>i self.
             case get_resource_job_tasks md k i of
               Inl e \<Rightarrow> Inl e
             | Inr task_k \<Rightarrow>
                 (case get_resource_job_tasks md j i of
                    Inl e \<Rightarrow> Inl e
                  | Inr task_j \<Rightarrow>
                      if duration task_k > 0 \<and> duration task_j > 0 then
                        self_cqm_add_constraint self
                          (case (x self (j, i), x self (k, i), y self (j, k, i)) of
                             (Some x_j, Some x_k, Some y_jk) \<Rightarrow>
                               Inr (Ge (Add (Add (Sub (Var x_j) (Var x_k))
                                                 (Mul (Num (duration task_k - duration task_j)) (Var y_jk)))
                                            (Mul (Mul (Num 2) (Var y_jk)) (Sub (Var x_k) (Var x_j))))
                                       (duration task_k))
                           | _ \<Rightarrow> Inl KeyError)
                          (''OneJobj'' @ str_int j @ ''_j'' @ str_int k @ ''_m'' @ str_int i)
                      else Inr self)) self
         else Inr self)) self"

definition add_disjunctive_constraints :: "job_shop_data \<Rightarrow> jss \<Rightarrow> error + jss" where
  "add_disjunctive_constraints md self =
     (let V = get_max_makespan md in
      for_each (jobs md) (\<lambda>j.
        for_each (jobs md) (\<lambda>k self.
          if j < k then
            for_each (resources md) (\<lambda>i self.
              case get_resource_job_tasks md k i of
                Inl e \<Rightarrow> Inl e
              | Inr task_k \<Rightarrow>
                  (case self_cqm_add_constraint self
                          (case (x self (j, i), x self (k, i), y self (j, k, i)) of
                             (Some x_j, Some x_k, Some y_jk) \<Rightarrow>
                               Inr (Ge (Add (Sub (Sub (Var x_j) (Var x_k)) (Num (duration task_k)))
                                            (Mul (Var y_jk) (Num V))) 0)
                           | _ \<Rightarrow> Inl KeyError)
                          (''disjunction1'' @ str_int j @ ''_j'' @ str_int k @ ''_m'' @ str_int i) of
                     Inl e \<Rightarrow> Inl e
                   | Inr self \<Rightarrow>
                       (case get_resource_job_tasks md j i of
                          Inl e \<Rightarrow> Inl e
                        | Inr task_j \<Rightarrow>
                            self_cqm_add_constraint self
                              (case (x self (k, i), x self (j, i), y self (j, k, i)) of
                                 (Some x_k, Some x_j, Some y_jk) \<Rightarrow>
                                   Inr (Ge (Add (Sub (Sub (Var x_k) (Var x_j)) (Num (duration task_j)))
                                                (Mul (Sub (Num 1) (Var y_jk)) (Num V))) 0)
                               | _ \<Rightarrow> Inl KeyError)
                              (''disjunction2'' @ str_int j @ ''_j'' @ str_int k @ ''_m'' @ str_int i)))) self
          else Inr self)) self)"

definition add_makespan_constraint :: "job_shop_data \<Rightarrow> jss \<Rightarrow> error + jss" where
  "add_makespan_constraint md self =
     for_each (jobs md) (\<lambda>job self.
       case job_tasks md job of
         None \<Rightarrow> Inl KeyError
       | Some ts \<Rightarrow>
           if ts = [] then Inl IndexError
           else
             let last_job_task = last ts;
                 last_machine = resource last_job_task
             in self_cqm_add_constraint self
                  (case x self (job, last_machine) of
                     None \<Rightarrow> Inl KeyError
                   | Some x_last \<Rightarrow>
                       (case makespan self of
                          None \<Rightarrow> Inl TypeError
                        | Some mk \<Rightarrow> Inr (Ge (Sub (Var mk) (Var x_last)) (duration last_job_task))))
                  (''makespan_ctr'' @ str_int job)) self"

section \<open>Solving and extracting the solution\<close>

text \<open>
  What a run does to the world outside the builder, in order: a model submitted to the
  hybrid sampler or to the local MIP solver (with the time limit), a warning, and the
  results table printed under \<open>verbose\<close> (its completion time and its maximal
  makespan; the three timings are left out). The print of the best samples is left out.
\<close>

datatype event =
    SampleCQM "cqm_model option" "int option"
  | SampleMIP "cqm_model option" int
  | Warn string
  | PrintResults int int

text \<open>
  The two solver backends are parameters: \<open>LeapHybridCQMSampler().sample_cqm\<close> of the
  D-Wave service, and \<open>MIPCQMSolver().sample_cqm\<close> of \<open>utils.mip_solver\<close>, which is not
  among the source files. Each takes the model and a time limit and returns a sample set,
  or fails.
\<close>

definition call_cqm_solver ::
  "(cqm_model option \<Rightarrow> int option \<Rightarrow> error + ('e::linorder) sampleset) \<Rightarrow>
   int option \<Rightarrow> job_shop_data \<Rightarrow> jss \<Rightarrow> event list \<times> (error + jss)" where
  "call_cqm_solver sample_cqm time_limit md self =
     (case sample_cqm (cqm self) time_limit of
        Inl e \<Rightarrow> ([SampleCQM (cqm self) time_limit], Inl e)
      | Inr raw_sampleset \<Rightarrow>
          let feasible_sampleset = filter_ss is_feasible raw_sampleset;
              num_feasible = length feasible_sampleset;
              warned = (if num_feasible > 0 then []
                        else [Warn ''Warning: Did not find feasible solution'']);
              best_samples = (if num_feasible > 0
                              then truncate_ss (min 10 num_feasible) feasible_sampleset
                              else truncate_ss 10 raw_sampleset)
          in (SampleCQM (cqm self) time_limit # warned,
              case first_ss best_samples of
                Inl e \<Rightarrow> Inl e
              | Inr r \<Rightarrow>
                  let self = self\<lparr>best_sample := sample r\<rparr> in
                  (case for_each [(i, j). i \<leftarrow> resources md, j \<leftarrow> jobs md] (\<lambda>(i, j) sol.
                          case get_resource_job_tasks md j i of
                            Inl e \<Rightarrow> Inl e
                          | Inr t \<Rightarrow>
                              (case x self (j, i) of
                                 None \<Rightarrow> Inl KeyError
                               | Some v \<Rightarrow>
                                   (case item (best_sample self) (label v) of
                                      Inl e \<Rightarrow> Inl e
                                    | Inr start \<Rightarrow>
                                        (case get_resource_job_tasks md j i of
                                           Inl e \<Rightarrow> Inl e
                                         | Inr t' \<Rightarrow>
                                             Inr (AList.update (j, i) (t, start, duration t') sol))))) [] of
                     Inl e \<Rightarrow> Inl e
                   | Inr sol \<Rightarrow>
                       let self = self\<lparr>solution := sol\<rparr> in
                       (case item (best_sample self) ''makespan'' of
                          Inl e \<Rightarrow> Inl e
                        | Inr v \<Rightarrow> Inr (self\<lparr>completion_time := v\<rparr>)))))"

definition call_mip_solver ::
  "(cqm_model option \<Rightarrow> int \<Rightarrow> error + ('e::linorder) sampleset) \<Rightarrow>
   int \<Rightarrow> jss \<Rightarrow> event list \<times> (error + jss)" where
  "call_mip_solver sample_cqm time_limit self =
     ([SampleMIP (cqm self) time_limit],
      case sample_cqm (cqm self) time_limit of
        Inl e \<Rightarrow> Inl e
      | Inr sol \<Rightarrow>
          (case first_ss sol of
             Inl e \<Rightarrow> Inl e
           | Inr r \<Rightarrow>
               let best_sol = sample r;
                   self = self\<lparr>solution := []\<rparr>
               in for_each best_sol (\<lambda>(var, val) self.
                    if prefix ''x'' var then
                      (case split_on CHR ''_'' (drop 1 var) of
                         [job, machine] \<Rightarrow>
                           (case py_int job of
                              Inl e \<Rightarrow> Inl e
                            | Inr job_id \<Rightarrow>
                                (case py_int machine of
                                   Inl e \<Rightarrow> Inl e
                                 | Inr machine_id \<Rightarrow>
                                     (case get_resource_job_tasks (model_data self) job_id machine_id of
                                        Inl e \<Rightarrow> Inl e
                                      | Inr t \<Rightarrow>
                                          Inr (self\<lparr>solution :=
                                                 AList.update (job_id, machine_id) (t, val, duration t)
                                                   (solution self)\<rparr>))))
                       | _ \<Rightarrow> Inl (ValueError ''wrong number of values to unpack''))
                    else Inr self) self))"

type_synonym row = "int \<times> task \<times> int \<times> int \<times> int"

definition solution_as_dataframe :: "jss \<Rightarrow> row list" where
  "solution_as_dataframe self =
     map (\<lambda>((j, i), (t, start, dur)). (j, t, start, start + dur, i)) (solution self)"

section \<open>The orchestrator \<open>run_shop_scheduler\<close>\<close>

text \<open>
  The model building steps of \<open>run_shop_scheduler\<close> (lines 241 to 250), in their order.
\<close>

definition build_model :: "job_shop_data \<Rightarrow> bool \<Rightarrow> error + jss" where
  "build_model job_data allow_quadratic_constraints =
     (let model = JobShopSchedulingCQM job_data;
          model = define_cqm_model model;
          model = define_variables job_data model
      in case add_precedence_constraints job_data model of
           Inl e \<Rightarrow> Inl e
         | Inr model \<Rightarrow>
             (case (if allow_quadratic_constraints
                    then add_quadratic_overlap_constraint job_data model
                    else add_disjunctive_constraints job_data model) of
                Inl e \<Rightarrow> Inl e
              | Inr model \<Rightarrow>
                  (case add_makespan_constraint job_data model of
                     Inl e \<Rightarrow> Inl e
                   | Inr model \<Rightarrow> define_objective_function model)))"

text \<open>
  \<open>start_time\<close> is the module's global of that name, set only when the module runs as
  a script: \<open>None\<close> when it is not defined, in which case reading it is a \<open>NameError\<close>.
  The result is the events of the run and the table returned, or the exception raised.
\<close>

definition run_shop_scheduler ::
  "'t option \<Rightarrow>
   (cqm_model option \<Rightarrow> int option \<Rightarrow> error + ('e::linorder) sampleset) \<Rightarrow>
   (cqm_model option \<Rightarrow> int \<Rightarrow> error + 'e sampleset) \<Rightarrow>
   job_shop_data \<Rightarrow> int option \<Rightarrow> bool \<Rightarrow> bool \<Rightarrow> bool \<Rightarrow> event list \<times> (error + row list)" where
  "run_shop_scheduler start_time sample_cqm mip_sample_cqm
       job_data max_time use_mip_solver verbose allow_quadratic_constraints =
     (if allow_quadratic_constraints \<and> use_mip_solver then
        ([], Inl (ValueError ''Cannot use quadratic constraints with MIP solver''))
      else if start_time = None then ([], Inl NameError)
      else
        (case build_model job_data allow_quadratic_constraints of
           Inl e \<Rightarrow> ([], Inl e)
         | Inr model \<Rightarrow>
             let (events, result) =
                   (if use_mip_solver then call_mip_solver mip_sample_cqm 100 model
                    else call_cqm_solver sample_cqm max_time job_data model)
             in (case result of
                   Inl e \<Rightarrow> (events, Inl e)
                 | Inr model \<Rightarrow>
                     (events @ (if verbose
                                then [PrintResults (completion_time model) (get_max_makespan job_data)]
                                else []),
                      Inr (solution_as_dataframe model)))))"

section \<open>Notions used in the statements and proofs\<close>

text \<open>
  The constraints the object's model holds so far (none before the model exists), and
  the variables and constraints the builder creates, written once.
\<close>

definition emitted :: "jss \<Rightarrow> (string \<times> comparison) list" where
  "emitted self = (case cqm self of None \<Rightarrow> [] | Some m \<Rightarrow> constraints m)"

abbreviation x_var :: "job_shop_data \<Rightarrow> int \<Rightarrow> int \<Rightarrow> variable" where
  "x_var md j i \<equiv> Integer (''x'' @ str_int j @ ''_'' @ str_int i) 0 (get_max_makespan md)"

abbreviation y_var :: "int \<Rightarrow> int \<Rightarrow> int \<Rightarrow> variable" where
  "y_var j k i \<equiv> Binary (''y'' @ str_int j @ ''_'' @ str_int k @ ''_'' @ str_int i)"

abbreviation makespan_var :: "job_shop_data \<Rightarrow> variable" where
  "makespan_var md \<equiv> Integer ''makespan'' 0 (get_max_makespan md)"

abbreviation task_duration :: "job_shop_data \<Rightarrow> int \<Rightarrow> int \<Rightarrow> int" where
  "task_duration md j i \<equiv> duration (the (resource_job_tasks md j i))"

abbreviation disjunctive_pair :: "job_shop_data \<Rightarrow> int \<Rightarrow> int \<Rightarrow> int \<Rightarrow> (string \<times> comparison) list" where
  "disjunctive_pair md j k i \<equiv>
     [(''disjunction1'' @ str_int j @ ''_j'' @ str_int k @ ''_m'' @ str_int i,
       Ge (Add (Sub (Sub (Var (x_var md j i)) (Var (x_var md k i))) (Num (task_duration md k i)))
               (Mul (Var (y_var j k i)) (Num (get_max_makespan md)))) 0),
      (''disjunction2'' @ str_int j @ ''_j'' @ str_int k @ ''_m'' @ str_int i,
       Ge (Add (Sub (Sub (Var (x_var md k i)) (Var (x_var md j i))) (Num (task_duration md j i)))
               (Mul (Sub (Num 1) (Var (y_var j k i))) (Num (get_max_makespan md)))) 0)]"

abbreviation (input) disjunctive_block :: "job_shop_data \<Rightarrow> (string \<times> comparison) list" where
  "disjunctive_block md \<equiv>
     concat (map (\<lambda>j. concat (map (\<lambda>k. if j < k then concat (map (\<lambda>i. disjunctive_pair md j k i) (resources md)) else [])
                                       (jobs md))) (jobs md))"

text \<open>
  The instance of the specification's concrete scenario: job 0 runs on resource 1 for 3
  and then on resource 2 for 2; job 1 runs on resource 2 for 4 and then on resource 1
  for 1. The makespan bound is the sum of the durations. \<open>example_model\<close> is the builder
  after \<open>define_cqm_model\<close> and \<open>define_variables\<close>.
\<close>

definition example_tasks :: "(int \<times> task list) list" where
  "example_tasks =
     [(0, [\<lparr>resource = 1, duration = 3\<rparr>, \<lparr>resource = 2, duration = 2\<rparr>]),
      (1, [\<lparr>resource = 2, duration = 4\<rparr>, \<lparr>resource = 1, duration = 1\<rparr>])]"

definition example_data :: job_shop_data where
  "example_data =
     \<lparr>jobs = [0, 1], resources = [1, 2],
      job_tasks = map_of example_tasks,
      resource_job_tasks = (\<lambda>j i. case map_of example_tasks j of None \<Rightarrow> None
                                | Some ts \<Rightarrow> find (\<lambda>t. resource t = i) ts),
      get_max_makespan = 10\<rparr>"

definition example_model :: jss where
  "example_model = define_variables example_data (define_cqm_model (JobShopSchedulingCQM example_data))"

abbreviation quadratic_item :: "job_shop_data \<Rightarrow> int \<Rightarrow> int \<Rightarrow> int \<Rightarrow> (string \<times> comparison) list" where
  "quadratic_item md j k i \<equiv>
     (if task_duration md k i > 0 \<and> task_duration md j i > 0 then
        [(''OneJobj'' @ str_int j @ ''_j'' @ str_int k @ ''_m'' @ str_int i,
          Ge (Add (Add (Sub (Var (x_var md j i)) (Var (x_var md k i)))
                       (Mul (Num (task_duration md k i - task_duration md j i)) (Var (y_var j k i))))
                  (Mul (Mul (Num 2) (Var (y_var j k i))) (Sub (Var (x_var md k i)) (Var (x_var md j i)))))
             (task_duration md k i))]
      else [])"

abbreviation (input) quadratic_block :: "job_shop_data \<Rightarrow> (string \<times> comparison) list" where
  "quadratic_block md \<equiv>
     concat (map (\<lambda>j. concat (map (\<lambda>k. if j < k then concat (map (\<lambda>i. quadratic_item md j k i) (resources md)) else [])
                                       (jobs md))) (jobs md))"

text \<open>
  A second instance, like the example but with duration 0 for job 1 on resource 1.
\<close>

definition zero_tasks :: "(int \<times> task list) list" where
  "zero_tasks =
     [(0, [\<lparr>resource = 1, duration = 3\<rparr>, \<lparr>resource = 2, duration = 2\<rparr>]),
      (1, [\<lparr>resource = 2, duration = 4\<rparr>, \<lparr>resource = 1, duration = 0\<rparr>])]"

definition zero_data :: job_shop_data where
  "zero_data =
     \<lparr>jobs = [0, 1], resources = [1, 2],
      job_tasks = map_of zero_tasks,
      resource_job_tasks = (\<lambda>j i. case map_of zero_tasks j of None \<Rightarrow> None
                                | Some ts \<Rightarrow> find (\<lambda>t. resource t = i) ts),
      get_max_makespan = 9\<rparr>"

definition zero_model :: jss where
  "zero_model = define_variables zero_data (define_cqm_model (JobShopSchedulingCQM zero_data))"

abbreviation precedence_item :: "job_shop_data \<Rightarrow> int \<Rightarrow> task \<times> task \<Rightarrow> string \<times> comparison" where
  "precedence_item md job pc \<equiv>
     (''pj'' @ str_int job @ ''_m'' @ str_int (resource (snd pc)),
      Ge (Sub (Var (x_var md job (resource (snd pc)))) (Var (x_var md job (resource (fst pc)))))
         (duration (fst pc)))"

abbreviation (input) precedence_block :: "job_shop_data \<Rightarrow> (string \<times> comparison) list" where
  "precedence_block md \<equiv>
     concat (map (\<lambda>job. concat (map (\<lambda>pc. [precedence_item md job pc])
                                   (zip (butlast (the (job_tasks md job))) (tl (the (job_tasks md job))))))
                 (jobs md))"

text \<open>
  A third instance, in which job 1 has a single task.
\<close>

definition single_tasks :: "(int \<times> task list) list" where
  "single_tasks =
     [(0, [\<lparr>resource = 1, duration = 3\<rparr>, \<lparr>resource = 2, duration = 2\<rparr>]),
      (1, [\<lparr>resource = 2, duration = 4\<rparr>])]"

definition single_data :: job_shop_data where
  "single_data =
     \<lparr>jobs = [0, 1], resources = [1, 2],
      job_tasks = map_of single_tasks,
      resource_job_tasks = (\<lambda>j i. case map_of single_tasks j of None \<Rightarrow> None
                                | Some ts \<Rightarrow> find (\<lambda>t. resource t = i) ts),
      get_max_makespan = 9\<rparr>"

definition single_model :: jss where
  "single_model = define_variables single_data (define_cqm_model (JobShopSchedulingCQM single_data))"

abbreviation makespan_item :: "job_shop_data \<Rightarrow> int \<Rightarrow> string \<times> comparison" where
  "makespan_item md job \<equiv>
     (''makespan_ctr'' @ str_int job,
      Ge (Sub (Var (makespan_var md)) (Var (x_var md job (resource (last (the (job_tasks md job)))))))
         (duration (last (the (job_tasks md job)))))"

abbreviation (input) makespan_block :: "job_shop_data \<Rightarrow> (string \<times> comparison) list" where
  "makespan_block md \<equiv> concat (map (\<lambda>job. [makespan_item md job]) (jobs md))"

text \<open>
  An ill-formed instance whose one job has no task sequence, on which the builder raises,
  and an answer of the local MIP solver for the example instance: one assignment, with
  makespan 5.
\<close>

definition broken_data :: job_shop_data where
  "broken_data =
     \<lparr>jobs = [0], resources = [1], job_tasks = Map.empty,
      resource_job_tasks = (\<lambda>j i. None), get_max_makespan = 0\<rparr>"

definition mip_answer :: "int sampleset" where
  "mip_answer =
     [\<lparr>sample = [(''x0_1'', 0), (''x0_2'', 3), (''x1_2'', 0), (''x1_1'', 4),
                 (''y0_1_1'', 1), (''y0_1_2'', 0), (''makespan'', 5)],
       energy = 5, is_feasible = True\<rparr>]"

text \<open>
  A second answer of the local MIP solver for the example instance, which satisfies
  every constraint of the model built under the disjunctive policy; its makespan is 6.
\<close>

definition mip_feasible_answer :: "int sampleset" where
  "mip_feasible_answer =
     [\<lparr>sample = [(''x0_1'', 0), (''x0_2'', 4), (''x1_2'', 0), (''x1_1'', 4),
                 (''y0_1_1'', 1), (''y0_1_2'', 0), (''makespan'', 6)],
       energy = 6, is_feasible = True\<rparr>]"

text \<open>
  The body of the comprehension that fills \<open>solution\<close> in \<open>call_cqm_solver\<close>, named for
  the proofs: \<open>smp\<close> is the best sample.
\<close>

definition extract_item ::
  "job_shop_data \<Rightarrow> jss \<Rightarrow> (string \<times> int) list \<Rightarrow> int \<times> int \<Rightarrow>
   ((int \<times> int) \<times> (task \<times> int \<times> int)) list \<Rightarrow> error + ((int \<times> int) \<times> (task \<times> int \<times> int)) list" where
  "extract_item md self smp = (\<lambda>(i, j) sol.
     case get_resource_job_tasks md j i of
       Inl e \<Rightarrow> Inl e
     | Inr t \<Rightarrow>
         (case x self (j, i) of
            None \<Rightarrow> Inl KeyError
          | Some v \<Rightarrow>
              (case item smp (label v) of
                 Inl e \<Rightarrow> Inl e
               | Inr start \<Rightarrow>
                   (case get_resource_job_tasks md j i of
                      Inl e \<Rightarrow> Inl e
                    | Inr t' \<Rightarrow> Inr (AList.update (j, i) (t, start, duration t') sol)))))"

text \<open>
  An answer of the hybrid sampler for the example instance with no feasible assignment:
  two infeasible ones, the second of lower energy.
\<close>

definition infeasible_answer :: "int sampleset" where
  "infeasible_answer =
     [\<lparr>sample = [(''x0_1'', 0), (''x0_2'', 3), (''x1_2'', 0), (''x1_1'', 4),
                 (''y0_1_1'', 1), (''y0_1_2'', 0), (''makespan'', 5)],
       energy = 5, is_feasible = False\<rparr>,
      \<lparr>sample = [(''x0_1'', 0), (''x0_2'', 3), (''x1_2'', 0), (''x1_1'', 3),
                 (''y0_1_1'', 1), (''y0_1_2'', 0), (''makespan'', 4)],
       energy = 4, is_feasible = False\<rparr>]"

section \<open>Decimal formatting is injective\<close>

lemma of_char_digit_char: "d < 10 \<Longrightarrow> of_char (digit_char d) = 48 + d"
  by (simp add: digit_char_def)

lemma digit_val_digit_char: "d < 10 \<Longrightarrow> digit_val (digit_char d) = d"
  by (simp add: digit_val_def of_char_digit_char)

lemma nat_of_str_str_nat: "nat_of_str (str_nat n) = n"
proof (induction n rule: str_nat.induct)
  case (1 n)
  show ?case
  proof (cases "n < 10")
    case True
    then show ?thesis by (simp add: str_nat.simps[of n] nat_of_str_def digit_val_digit_char)
  next
    case False
    with 1 have "nat_of_str (str_nat (n div 10)) = n div 10" by simp
    with False show ?thesis
      by (simp add: str_nat.simps[of n] nat_of_str_def digit_val_digit_char)
  qed
qed

lemma str_nat_inj: "str_nat m = str_nat n \<Longrightarrow> m = n"
  by (metis nat_of_str_str_nat)

lemma is_digit_digit_char: "d < 10 \<Longrightarrow> is_digit (digit_char d)"
  by (simp add: is_digit_def of_char_digit_char)

lemma str_nat_digits: "c \<in> set (str_nat n) \<Longrightarrow> is_digit c"
proof (induction n rule: str_nat.induct)
  case (1 n)
  show ?case
  proof (cases "n < 10")
    case True
    with "1.prems" show ?thesis by (simp add: str_nat.simps[of n] is_digit_digit_char)
  next
    case False
    with "1.prems" have "c \<in> set (str_nat (n div 10)) \<or> c = digit_char (n mod 10)"
      by (auto simp: str_nat.simps[of n])
    then show ?thesis
    proof
      assume "c \<in> set (str_nat (n div 10))"
      with 1 False show ?thesis by simp
    next
      assume "c = digit_char (n mod 10)"
      then show ?thesis by (simp add: is_digit_digit_char)
    qed
  qed
qed

lemma str_nat_nonempty: "str_nat n \<noteq> []"
  by (subst str_nat.simps) simp

lemma minus_not_digit: "\<not> is_digit CHR ''-''"
  by (simp add: is_digit_def)

lemma underscore_not_digit: "\<not> is_digit CHR ''_''"
  by (simp add: is_digit_def)

lemma hd_str_nat: "hd (str_nat k) \<noteq> CHR ''-''"
proof -
  have "hd (str_nat k) \<in> set (str_nat k)" using str_nat_nonempty by simp
  then have "is_digit (hd (str_nat k))" by (rule str_nat_digits)
  then show ?thesis using minus_not_digit by auto
qed

lemma str_int_inj: "str_int m = str_int n \<Longrightarrow> m = n"
proof -
  assume h: "str_int m = str_int n"
  show ?thesis
  proof (cases "m < 0")
    case True
    show ?thesis
    proof (cases "n < 0")
      case True
      with \<open>m < 0\<close> h have "str_nat (nat (- m)) = str_nat (nat (- n))" by (simp add: str_int_def)
      then have "nat (- m) = nat (- n)" by (rule str_nat_inj)
      with True \<open>m < 0\<close> show ?thesis by simp
    next
      case False
      with \<open>m < 0\<close> h have "CHR ''-'' # str_nat (nat (- m)) = str_nat (nat n)" by (simp add: str_int_def)
      then have "hd (str_nat (nat n)) = CHR ''-''" by (metis list.sel(1))
      with hd_str_nat show ?thesis by blast
    qed
  next
    case False
    show ?thesis
    proof (cases "n < 0")
      case True
      with False h have "str_nat (nat m) = CHR ''-'' # str_nat (nat (- n))" by (simp add: str_int_def)
      then have "hd (str_nat (nat m)) = CHR ''-''" by (metis list.sel(1))
      with hd_str_nat show ?thesis by blast
    next
      case False
      with \<open>\<not> m < 0\<close> h have "str_nat (nat m) = str_nat (nat n)" by (simp add: str_int_def)
      then have "nat m = nat n" by (rule str_nat_inj)
      with False \<open>\<not> m < 0\<close> show ?thesis by simp
    qed
  qed
qed

lemma underscore_notin_str_int: "CHR ''_'' \<notin> set (str_int n)"
proof
  assume "CHR ''_'' \<in> set (str_int n)"
  then have "CHR ''_'' = CHR ''-'' \<or> CHR ''_'' \<in> set (str_nat (nat (- n))) \<or> CHR ''_'' \<in> set (str_nat (nat n))"
    by (auto simp: str_int_def split: if_splits)
  then show False using str_nat_digits underscore_not_digit by auto
qed

lemma split_at_sep:
  assumes "a @ c # b = a' @ c # b'" "c \<notin> set a" "c \<notin> set a'"
  shows "a = a' \<and> b = b'"
  using assms
proof (induction a arbitrary: a')
  case Nil
  then show ?case by (cases a') auto
next
  case (Cons h t)
  then show ?case by (cases a') auto
qed

section \<open>Loops that add constraints\<close>

lemma for_each_emits:
  assumes step: "\<And>a s s'. a \<in> set as \<Longrightarrow> I s \<Longrightarrow> body a s = Inr s' \<Longrightarrow> I s' \<and> emitted s' = emitted s @ g a"
    and "I s" and "for_each as body s = Inr s'"
  shows "I s' \<and> emitted s' = emitted s @ concat (map g as)"
  using assms
proof (induction as arbitrary: s)
  case Nil
  then show ?case by simp
next
  case (Cons a as)
  from Cons.prems(3) obtain s1 where b: "body a s = Inr s1" and r: "for_each as body s1 = Inr s'"
    by (auto split: sum.splits)
  have 1: "I s1 \<and> emitted s1 = emitted s @ g a"
    using Cons.prems(1)[of a s s1] Cons.prems(2) b by simp
  have "I s' \<and> emitted s' = emitted s1 @ concat (map g as)"
  proof (rule Cons.IH)
    show "I t' \<and> emitted t' = emitted t @ g a'"
      if "a' \<in> set as" "I t" "body a' t = Inr t'" for a' t t'
      using Cons.prems(1)[of a' t t'] that by simp
    show "I s1" using 1 by simp
    show "for_each as body s1 = Inr s'" by (rule r)
  qed
  with 1 show ?case by simp
qed

lemma for_each_succeeds:
  assumes step: "\<And>a s. a \<in> set as \<Longrightarrow> I s \<Longrightarrow> distinct (map fst (emitted s @ g a))
             \<Longrightarrow> \<exists>s'. body a s = Inr s' \<and> I s' \<and> emitted s' = emitted s @ g a"
    and "I s" and "distinct (map fst (emitted s @ concat (map g as)))"
  shows "\<exists>s'. for_each as body s = Inr s' \<and> I s' \<and> emitted s' = emitted s @ concat (map g as)"
  using assms
proof (induction as arbitrary: s)
  case Nil
  then show ?case by simp
next
  case (Cons a as)
  have d: "distinct (map fst (emitted s @ g a))"
    using Cons.prems(3) by auto
  obtain s1 where b: "body a s = Inr s1" and i1: "I s1" and e1: "emitted s1 = emitted s @ g a"
    using Cons.prems(1)[of a s] Cons.prems(2) d by auto
  have "\<exists>s'. for_each as body s1 = Inr s' \<and> I s' \<and> emitted s' = emitted s1 @ concat (map g as)"
  proof (rule Cons.IH)
    show "\<exists>t'. body a' t = Inr t' \<and> I t' \<and> emitted t' = emitted t @ g a'"
      if "a' \<in> set as" "I t" "distinct (map fst (emitted t @ g a'))" for a' t
      using Cons.prems(1)[of a' t] that by simp
    show "I s1" by (rule i1)
    show "distinct (map fst (emitted s1 @ concat (map g as)))"
      using Cons.prems(3) e1 by simp
  qed
  then show ?case using b e1 by auto
qed

lemma self_cqm_add_constraint_Inr:
  "self_cqm_add_constraint s arg l = Inr s' \<longleftrightarrow>
     (\<exists>m c. cqm s = Some m \<and> arg = Inr c \<and> l \<notin> set (map fst (constraints m)) \<and>
            s' = s\<lparr>cqm := Some (m\<lparr>constraints := constraints m @ [(l, c)]\<rparr>)\<rparr>)"
  by (auto simp: self_cqm_add_constraint_def add_constraint_def split: option.splits sum.splits)

lemma emitted_cqm_update:
  "emitted (s\<lparr>cqm := Some m\<rparr>) = constraints m"
  by (simp add: emitted_def)

lemma define_variables_cqm_update:
  "define_variables md s = s \<Longrightarrow> define_variables md (s\<lparr>cqm := c\<rparr>) = s\<lparr>cqm := c\<rparr>"
  by (cases s) (simp add: define_variables_def)

section \<open>The variables of the model\<close>

lemma fold_upd_lookup:
  "fold (\<lambda>kv m. m(fst kv \<mapsto> snd kv)) kvs m0 k =
     (case map_of (rev kvs) k of None \<Rightarrow> m0 k | Some v \<Rightarrow> Some v)"
  by (induction kvs arbitrary: m0) (auto simp: map_add_def split: option.splits)

lemma dict_of_lookup:
  assumes "\<And>kv. kv \<in> set kvs \<Longrightarrow> snd kv = f (fst kv)"
  shows "dict_of kvs k = (if k \<in> fst ` set kvs then Some (f k) else None)"
proof (cases "map_of (rev kvs) k")
  case None
  then have "k \<notin> fst ` set kvs" by (simp add: map_of_eq_None_iff)
  with None show ?thesis by (simp add: dict_of_def fold_upd_lookup)
next
  case (Some v)
  then have "(k, v) \<in> set kvs" using map_of_SomeD by fastforce
  then have "v = f k" and "k \<in> fst ` set kvs" using assms by force+
  with Some show ?thesis by (simp add: dict_of_def fold_upd_lookup)
qed

lemma x_define_variables:
  "x (define_variables md s) (j, i) =
     (if j \<in> set (jobs md) \<and> i \<in> set (resources md) then Some (x_var md j i) else None)"
proof -
  let ?kvs = "[((j, i), x_var md j i). j \<leftarrow> jobs md, i \<leftarrow> resources md]"
  have "dict_of ?kvs (j, i) = (if (j, i) \<in> fst ` set ?kvs then Some (case (j, i) of (j, i) \<Rightarrow> x_var md j i) else None)"
    by (rule dict_of_lookup) auto
  moreover have "(j, i) \<in> fst ` set ?kvs \<longleftrightarrow> j \<in> set (jobs md) \<and> i \<in> set (resources md)"
    by force
  ultimately show ?thesis by (simp add: define_variables_def)
qed

lemma y_define_variables:
  "y (define_variables md s) (j, k, i) =
     (if j \<in> set (jobs md) \<and> k \<in> set (jobs md) \<and> i \<in> set (resources md)
      then Some (y_var j k i) else None)"
proof -
  let ?kvs = "[((j, k, i), y_var j k i). j \<leftarrow> jobs md, k \<leftarrow> jobs md, i \<leftarrow> resources md]"
  have "dict_of ?kvs (j, k, i) = (if (j, k, i) \<in> fst ` set ?kvs then Some (case (j, k, i) of (j, k, i) \<Rightarrow> y_var j k i) else None)"
    by (rule dict_of_lookup) auto
  moreover have "(j, k, i) \<in> fst ` set ?kvs \<longleftrightarrow> j \<in> set (jobs md) \<and> k \<in> set (jobs md) \<and> i \<in> set (resources md)"
    by force
  ultimately show ?thesis by (simp add: define_variables_def)
qed

lemma makespan_define_variables:
  "makespan (define_variables md s) = Some (makespan_var md)"
  by (simp add: define_variables_def)

lemma x_defined:
  "define_variables md s = s \<Longrightarrow> x s (j, i) =
     (if j \<in> set (jobs md) \<and> i \<in> set (resources md) then Some (x_var md j i) else None)"
  using x_define_variables[of md s j i] by simp

lemma y_defined:
  "define_variables md s = s \<Longrightarrow> y s (j, k, i) =
     (if j \<in> set (jobs md) \<and> k \<in> set (jobs md) \<and> i \<in> set (resources md)
      then Some (y_var j k i) else None)"
  using y_define_variables[of md s j k i] by simp

lemma makespan_defined:
  "define_variables md s = s \<Longrightarrow> makespan s = Some (makespan_var md)"
  using makespan_define_variables[of md s] by simp

lemma add_step:
  assumes "define_variables md s = s" "self_cqm_add_constraint s (Inr c) l = Inr s'"
  shows "define_variables md s' = s' \<and> emitted s' = emitted s @ [(l, c)]"
  using assms
  by (auto simp: self_cqm_add_constraint_Inr emitted_def define_variables_cqm_update)

lemma add_step_total:
  assumes "define_variables md s = s" "cqm s \<noteq> None" "distinct (map fst (emitted s @ [(l, c)]))"
  shows "\<exists>s'. self_cqm_add_constraint s (Inr c) l = Inr s' \<and> define_variables md s' = s' \<and> cqm s' \<noteq> None
     \<and> emitted s' = emitted s @ [(l, c)]"
  using assms
  by (auto simp: self_cqm_add_constraint_Inr emitted_def define_variables_cqm_update)

lemma disjunctive_emitted:
  assumes inv: "define_variables md s = s"
    and run: "add_disjunctive_constraints md s = Inr s'"
  shows "define_variables md s' = s' \<and>
         emitted s' = emitted s @
           concat (map (\<lambda>j. concat (map (\<lambda>k. if j < k then concat (map (\<lambda>i. disjunctive_pair md j k i) (resources md)) else [])
                                       (jobs md))) (jobs md))"
  apply (rule for_each_emits[where I = "\<lambda>s. define_variables md s = s", OF _ inv run[unfolded add_disjunctive_constraints_def Let_def]])
  subgoal premises p1 for j s1 s1'
    apply (rule for_each_emits[where I = "\<lambda>s. define_variables md s = s", OF _ p1(2) p1(3)])
    subgoal premises p2 for k s2 s2'
    proof (cases "j < k")
      case False
      with p2 show ?thesis by simp
    next
      case True
      note r = p2(3)[unfolded if_P[OF True]]
      show ?thesis
        unfolding if_P[OF True]
        apply (rule for_each_emits[where I = "\<lambda>s. define_variables md s = s", OF _ p2(2) r])
        subgoal premises p3 for i s3 s3'
        proof -
          from p3(3) obtain tk where tk: "resource_job_tasks md k i = Some tk"
            by (auto simp: get_resource_job_tasks_def split: option.splits)
          have xs: "x s3 (j, i) = Some (x_var md j i)" "x s3 (k, i) = Some (x_var md k i)"
            "y s3 (j, k, i) = Some (y_var j k i)"
            using p1(1) p2(1) p3(1) by (simp_all add: x_defined[OF p3(2)] y_defined[OF p3(2)])
          from p3(3) tk xs obtain sa where
            a1: "self_cqm_add_constraint s3 (Inr (snd (hd (disjunctive_pair md j k i)))) (fst (hd (disjunctive_pair md j k i))) = Inr sa"
            by (auto simp: get_resource_job_tasks_def split: sum.splits)
          have sa: "define_variables md sa = sa \<and> emitted sa = emitted s3 @ [hd (disjunctive_pair md j k i)]"
            using add_step[OF p3(2) a1] by simp
          have xa: "x sa (j, i) = Some (x_var md j i)" "x sa (k, i) = Some (x_var md k i)"
            "y sa (j, k, i) = Some (y_var j k i)"
            using p1(1) p2(1) p3(1) by (simp_all add: x_defined[OF conjunct1[OF sa]] y_defined[OF conjunct1[OF sa]])
          from p3(3) tk xs a1 obtain tj where tj: "resource_job_tasks md j i = Some tj"
            by (auto simp: get_resource_job_tasks_def split: option.splits)
          from p3(3) tk xs a1 tj xa have
            a2: "self_cqm_add_constraint sa (Inr (snd (disjunctive_pair md j k i ! 1))) (fst (disjunctive_pair md j k i ! 1)) = Inr s3'"
            by (auto simp: get_resource_job_tasks_def split: sum.splits)
          have "define_variables md s3' = s3' \<and> emitted s3' = emitted sa @ [disjunctive_pair md j k i ! 1]"
            using add_step[OF conjunct1[OF sa] a2] sa by simp
          with sa show ?thesis by simp
        qed
        done
    qed
    done
  done

section \<open>Labels are unambiguous\<close>

lemma str_int_sep_inj:
  assumes "str_int a @ CHR ''_'' # r = str_int b @ CHR ''_'' # r'"
  shows "a = b \<and> r = r'"
proof -
  have "str_int a = str_int b \<and> r = r'"
    by (rule split_at_sep[OF assms underscore_notin_str_int underscore_notin_str_int])
  then show ?thesis using str_int_inj by blast
qed

lemma label2_inj:
  assumes "str_int a @ CHR ''_'' # c # str_int b = str_int a' @ CHR ''_'' # c # str_int b'"
  shows "a = a' \<and> b = b'"
proof -
  from str_int_sep_inj[OF assms] have "a = a'" and "c # str_int b = c # str_int b'" by simp_all
  then show ?thesis using str_int_inj by simp
qed

lemma label3_inj:
  assumes "str_int a @ ''_j'' @ str_int b @ ''_m'' @ str_int c = str_int a' @ ''_j'' @ str_int b' @ ''_m'' @ str_int c'"
  shows "a = a' \<and> b = b' \<and> c = c'"
proof -
  from assms have "str_int a @ CHR ''_'' # (CHR ''j'' # str_int b @ ''_m'' @ str_int c)
      = str_int a' @ CHR ''_'' # (CHR ''j'' # str_int b' @ ''_m'' @ str_int c')" by simp
  from str_int_sep_inj[OF this]
  have 1: "a = a'" and "str_int b @ CHR ''_'' # CHR ''m'' # str_int c = str_int b' @ CHR ''_'' # CHR ''m'' # str_int c'"
    by simp_all
  from label2_inj[OF this(2)] 1 show ?thesis by simp
qed

lemma y_label_inj:
  assumes "str_int a @ ''_'' @ str_int b @ ''_'' @ str_int c = str_int a' @ ''_'' @ str_int b' @ ''_'' @ str_int c'"
  shows "a = a' \<and> b = b' \<and> c = c'"
proof -
  from assms have "str_int a @ CHR ''_'' # (str_int b @ ''_'' @ str_int c)
      = str_int a' @ CHR ''_'' # (str_int b' @ ''_'' @ str_int c')" by simp
  from str_int_sep_inj[OF this]
  have 1: "a = a'" and 2: "str_int b @ CHR ''_'' # str_int c = str_int b' @ CHR ''_'' # str_int c'"
    by simp_all
  from str_int_sep_inj[OF 2] have "b = b'" "str_int c = str_int c'" by simp_all
  with 1 show ?thesis using str_int_inj by simp
qed

lemma distinct_concat_map:
  assumes "distinct xs"
    and "\<And>a. a \<in> set xs \<Longrightarrow> distinct (f a)"
    and "\<And>a b. a \<in> set xs \<Longrightarrow> b \<in> set xs \<Longrightarrow> a \<noteq> b \<Longrightarrow> set (f a) \<inter> set (f b) = {}"
  shows "distinct (concat (map f xs))"
  using assms
proof (induction xs)
  case Nil
  then show ?case by simp
next
  case (Cons a xs)
  have "distinct (concat (map f xs))"
    by (rule Cons.IH) (use Cons.prems in auto)
  moreover have "distinct (f a)" using Cons.prems(2) by simp
  moreover have "set (f a) \<inter> set (concat (map f xs)) = {}"
  proof -
    have "set (f a) \<inter> set (f b) = {}" if "b \<in> set xs" for b
      using Cons.prems(3)[of a b] Cons.prems(1) that by auto
    then show ?thesis by auto
  qed
  ultimately show ?case by simp
qed

lemma distinct_triples:
  assumes "distinct js" "distinct rs"
  shows "distinct (concat (map (\<lambda>j. concat (map (\<lambda>k. if j < k then concat (map (\<lambda>i. [(j, k, i, False), (j, k, i, True)]) rs) else [])
                                       js)) (js :: int list)))"
proof (rule distinct_concat_map[OF assms(1)])
  fix j :: int
  show "distinct (concat (map (\<lambda>k. if j < k then concat (map (\<lambda>i. [(j, k, i, False), (j, k, i, True)]) rs) else []) js))"
  proof (rule distinct_concat_map[OF assms(1)])
    fix k :: int
    have "distinct (concat (map (\<lambda>i. [(j, k, i, False), (j, k, i, True)]) rs))"
      by (rule distinct_concat_map[OF assms(2)]) auto
    then show "distinct (if j < k then concat (map (\<lambda>i. [(j, k, i, False), (j, k, i, True)]) rs) else [])"
      by simp
  next
    fix k k' :: int
    assume "k \<noteq> k'"
    then show "set (if j < k then concat (map (\<lambda>i. [(j, k, i, False), (j, k, i, True)]) rs) else []) \<inter>
               set (if j < k' then concat (map (\<lambda>i. [(j, k', i, False), (j, k', i, True)]) rs) else []) = {}"
      by auto
  qed
next
  fix j j' :: int
  assume "j \<noteq> j'"
  then show "set (concat (map (\<lambda>k. if j < k then concat (map (\<lambda>i. [(j, k, i, False), (j, k, i, True)]) rs) else []) js)) \<inter>
        set (concat (map (\<lambda>k. if j' < k then concat (map (\<lambda>i. [(j', k, i, False), (j', k, i, True)]) rs) else []) js)) = {}"
    by (auto split: if_splits)
qed

section \<open>The disjunctive policy\<close>

lemma disjunctive_succeeds:
  assumes inv: "define_variables md s = s \<and> cqm s \<noteq> None"
    and tasks: "\<And>j i. j \<in> set (jobs md) \<Longrightarrow> i \<in> set (resources md) \<Longrightarrow> resource_job_tasks md j i \<noteq> None"
    and dist: "distinct (map fst (emitted s @ disjunctive_block md))"
  shows "\<exists>s'. add_disjunctive_constraints md s = Inr s' \<and> (define_variables md s' = s' \<and> cqm s' \<noteq> None) \<and>
           emitted s' = emitted s @ disjunctive_block md"
  unfolding add_disjunctive_constraints_def Let_def
  apply (rule for_each_succeeds[where I = "\<lambda>s. define_variables md s = s \<and> cqm s \<noteq> None", OF _ inv dist])
  subgoal premises p1 for j s1
    apply (rule for_each_succeeds[where I = "\<lambda>s. define_variables md s = s \<and> cqm s \<noteq> None", OF _ p1(2) p1(3)])
    subgoal premises p2 for k s2
    proof (cases "j < k")
      case False
      with p2 show ?thesis by simp
    next
      case True
      note d = p2(3)[unfolded if_P[OF True]]
      show ?thesis
        unfolding if_P[OF True]
        apply (rule for_each_succeeds[where I = "\<lambda>s. define_variables md s = s \<and> cqm s \<noteq> None", OF _ p2(2) d])
        subgoal premises p3 for i s3
        proof -
          obtain tk where tk: "resource_job_tasks md k i = Some tk"
            using tasks[OF p2(1) p3(1)] by auto
          obtain tj where tj: "resource_job_tasks md j i = Some tj"
            using tasks[OF p1(1) p3(1)] by auto
          have i3: "define_variables md s3 = s3" and c3: "cqm s3 \<noteq> None" using p3(2) by simp_all
          have xs: "x s3 (j, i) = Some (x_var md j i)" "x s3 (k, i) = Some (x_var md k i)"
            "y s3 (j, k, i) = Some (y_var j k i)"
            using p1(1) p2(1) p3(1) by (simp_all add: x_defined[OF i3] y_defined[OF i3])
          have d1: "distinct (map fst (emitted s3 @ [hd (disjunctive_pair md j k i)]))"
            using p3(3) by simp
          obtain sa where a1: "self_cqm_add_constraint s3 (Inr (snd (hd (disjunctive_pair md j k i)))) (fst (hd (disjunctive_pair md j k i))) = Inr sa"
            and ia: "define_variables md sa = sa" and ca: "cqm sa \<noteq> None"
            and ea: "emitted sa = emitted s3 @ [hd (disjunctive_pair md j k i)]"
            using add_step_total[OF i3 c3, of "fst (hd (disjunctive_pair md j k i))" "snd (hd (disjunctive_pair md j k i))"] d1
            by auto
          have xa: "x sa (j, i) = Some (x_var md j i)" "x sa (k, i) = Some (x_var md k i)"
            "y sa (j, k, i) = Some (y_var j k i)"
            using p1(1) p2(1) p3(1) by (simp_all add: x_defined[OF ia] y_defined[OF ia])
          have d2: "distinct (map fst (emitted sa @ [disjunctive_pair md j k i ! 1]))"
            using p3(3) ea by simp
          obtain sb where a2: "self_cqm_add_constraint sa (Inr (snd (disjunctive_pair md j k i ! 1))) (fst (disjunctive_pair md j k i ! 1)) = Inr sb"
            and ib: "define_variables md sb = sb" and cb: "cqm sb \<noteq> None"
            and eb: "emitted sb = emitted sa @ [disjunctive_pair md j k i ! 1]"
            using add_step_total[OF ia ca, of "fst (disjunctive_pair md j k i ! 1)" "snd (disjunctive_pair md j k i ! 1)"] d2
            by auto
          show ?thesis
            using tk tj xs xa a1 a2 ib cb ea eb
            by (simp add: get_resource_job_tasks_def)
        qed
        done
    qed
    done
  done

lemma disjunctive_labels:
  "map fst (disjunctive_block md) =
     map (\<lambda>(j, k, i, b). (if b then ''disjunction2'' else ''disjunction1'') @ str_int j @ ''_j'' @ str_int k @ ''_m'' @ str_int i)
       (concat (map (\<lambda>j. concat (map (\<lambda>k. if j < k then concat (map (\<lambda>i. [(j, k, i, False), (j, k, i, True)]) (resources md)) else [])
                                       (jobs md))) (jobs md)))"
  by (simp add: map_concat o_def if_distrib cong: if_cong)

lemma disjunctive_labels_distinct:
  assumes "distinct (jobs md)" "distinct (resources md)"
  shows "distinct (map fst (disjunctive_block md))"
proof -
  have "inj (\<lambda>(j, k, i, b). (if b then ''disjunction2'' else ''disjunction1'') @ str_int j @ ''_j'' @ str_int k @ ''_m'' @ str_int i)"
  proof (rule injI)
    fix t t' :: "int \<times> int \<times> int \<times> bool"
    obtain j k i b where t: "t = (j, k, i, b)" by (cases t) auto
    obtain j' k' i' b' where t': "t' = (j', k', i', b')" by (cases t') auto
    assume "(case t of (j, k, i, b) \<Rightarrow> (if b then ''disjunction2'' else ''disjunction1'') @ str_int j @ ''_j'' @ str_int k @ ''_m'' @ str_int i)
          = (case t' of (j, k, i, b) \<Rightarrow> (if b then ''disjunction2'' else ''disjunction1'') @ str_int j @ ''_j'' @ str_int k @ ''_m'' @ str_int i)"
    then have e: "(if b then ''disjunction2'' else ''disjunction1'') @ str_int j @ ''_j'' @ str_int k @ ''_m'' @ str_int i
         = (if b' then ''disjunction2'' else ''disjunction1'') @ str_int j' @ ''_j'' @ str_int k' @ ''_m'' @ str_int i'"
      by (simp add: t t')
    then have bb: "b = b'" by (auto split: if_splits)
    with e have "str_int j @ ''_j'' @ str_int k @ ''_m'' @ str_int i = str_int j' @ ''_j'' @ str_int k' @ ''_m'' @ str_int i'"
      by (auto split: if_splits)
    from label3_inj[OF this] bb show "t = t'" by (simp add: t t')
  qed
  then have "inj_on (\<lambda>(j, k, i, b). (if b then ''disjunction2'' else ''disjunction1'') @ str_int j @ ''_j'' @ str_int k @ ''_m'' @ str_int i) A" for A
    by (rule inj_on_subset) simp
  then show ?thesis
    unfolding disjunctive_labels
    by (simp add: distinct_map distinct_triples[OF assms])
qed

lemma disjunctive_labels_prefix:
  "l \<in> set (map fst (disjunctive_block md)) \<Longrightarrow> prefix ''disjunction'' l"
  by (auto split: if_splits)

lemma for_each_Inr_all:
  assumes "for_each as body s = Inr s'"
    and "\<And>a t t'. a \<in> set as \<Longrightarrow> body a t = Inr t' \<Longrightarrow> P a"
  shows "\<forall>a \<in> set as. P a"
  using assms
proof (induction as arbitrary: s)
  case Nil
  then show ?case by simp
next
  case (Cons a as)
  from Cons.prems(1) obtain s1 where b: "body a s = Inr s1" and r: "for_each as body s1 = Inr s'"
    by (auto split: sum.splits)
  have "P a" using Cons.prems(2)[of a s s1] b by simp
  moreover have "\<forall>a \<in> set as. P a"
    by (rule Cons.IH[OF r]) (use Cons.prems(2) in auto)
  ultimately show ?case by simp
qed

lemma disjunctive_tasks_defined:
  assumes run: "add_disjunctive_constraints md s = Inr s'"
  shows "\<forall>j \<in> set (jobs md). \<forall>k \<in> set (jobs md). j < k \<longrightarrow>
           (\<forall>i \<in> set (resources md). resource_job_tasks md k i \<noteq> None \<and> resource_job_tasks md j i \<noteq> None)"
  apply (rule for_each_Inr_all[OF run[unfolded add_disjunctive_constraints_def Let_def]])
  subgoal premises p1 for j s1 s1'
    apply (rule for_each_Inr_all[OF p1(2)])
    subgoal premises p2 for k s2 s2'
    proof
      assume lt: "j < k"
      note r = p2(2)[unfolded if_P[OF lt]]
      show "\<forall>i \<in> set (resources md). resource_job_tasks md k i \<noteq> None \<and> resource_job_tasks md j i \<noteq> None"
        apply (rule for_each_Inr_all[OF r])
        subgoal premises p3 for i s3 s3'
          using p3(2)
          by (auto simp: get_resource_job_tasks_def split: option.splits sum.splits)
        done
    qed
    done
  done

section \<open>The example instance\<close>

lemma str_int_0: "str_int 0 = ''0''" by code_simp

lemma str_int_1: "str_int 1 = ''1''" by code_simp

lemma str_int_2: "str_int 2 = ''2''" by code_simp

lemma example_model_defined: "define_variables example_data example_model = example_model"
  by (simp add: example_model_def define_variables_def)

lemma example_model_cqm: "cqm example_model = Some ConstrainedQuadraticModel"
  by (simp add: example_model_def define_variables_def define_cqm_model_def)

lemma example_model_emitted: "emitted example_model = []"
  by (simp add: emitted_def example_model_cqm ConstrainedQuadraticModel_def)

lemma example_tasks_defined:
  "\<forall>j i. j \<in> set (jobs example_data) \<and> i \<in> set (resources example_data) \<longrightarrow> resource_job_tasks example_data j i \<noteq> None"
  by (auto simp: example_data_def example_tasks_def)

section \<open>The bilinear policy\<close>

lemma quadratic_emitted:
  assumes inv: "define_variables md s = s"
    and run: "add_quadratic_overlap_constraint md s = Inr s'"
  shows "define_variables md s' = s' \<and> emitted s' = emitted s @ quadratic_block md"
  apply (rule for_each_emits[where I = "\<lambda>s. define_variables md s = s", OF _ inv run[unfolded add_quadratic_overlap_constraint_def]])
  subgoal premises p1 for j s1 s1'
    apply (rule for_each_emits[where I = "\<lambda>s. define_variables md s = s", OF _ p1(2) p1(3)])
    subgoal premises p2 for k s2 s2'
    proof (cases "j < k")
      case False
      with p2 show ?thesis by simp
    next
      case True
      note r = p2(3)[unfolded if_P[OF True]]
      show ?thesis
        unfolding if_P[OF True]
        apply (rule for_each_emits[where I = "\<lambda>s. define_variables md s = s", OF _ p2(2) r])
        subgoal premises p3 for i s3 s3'
        proof -
          from p3(3) obtain tk where tk: "resource_job_tasks md k i = Some tk"
            by (auto simp: get_resource_job_tasks_def split: option.splits)
          from p3(3) tk obtain tj where tj: "resource_job_tasks md j i = Some tj"
            by (auto simp: get_resource_job_tasks_def split: option.splits)
          have xs: "x s3 (j, i) = Some (x_var md j i)" "x s3 (k, i) = Some (x_var md k i)"
            "y s3 (j, k, i) = Some (y_var j k i)"
            using p1(1) p2(1) p3(1) by (simp_all add: x_defined[OF p3(2)] y_defined[OF p3(2)])
          show ?thesis
          proof (cases "duration tk > 0 \<and> duration tj > 0")
            case False
            with p3(3) tk tj have "s3' = s3" by (auto simp: get_resource_job_tasks_def)
            with False tk tj p3(2) show ?thesis by auto
          next
            case True
            with p3(3) tk tj xs have
              a: "self_cqm_add_constraint s3 (Inr (snd (hd (quadratic_item md j k i)))) (fst (hd (quadratic_item md j k i))) = Inr s3'"
              by (simp add: get_resource_job_tasks_def)
            show ?thesis using add_step[OF p3(2) a] True tk tj by simp
          qed
        qed
        done
    qed
    done
  done

lemma quadratic_succeeds:
  assumes inv: "define_variables md s = s \<and> cqm s \<noteq> None"
    and tasks: "\<And>j i. j \<in> set (jobs md) \<Longrightarrow> i \<in> set (resources md) \<Longrightarrow> resource_job_tasks md j i \<noteq> None"
    and dist: "distinct (map fst (emitted s @ quadratic_block md))"
  shows "\<exists>s'. add_quadratic_overlap_constraint md s = Inr s' \<and> (define_variables md s' = s' \<and> cqm s' \<noteq> None) \<and>
           emitted s' = emitted s @ quadratic_block md"
  unfolding add_quadratic_overlap_constraint_def
  apply (rule for_each_succeeds[where I = "\<lambda>s. define_variables md s = s \<and> cqm s \<noteq> None", OF _ inv dist])
  subgoal premises p1 for j s1
    apply (rule for_each_succeeds[where I = "\<lambda>s. define_variables md s = s \<and> cqm s \<noteq> None", OF _ p1(2) p1(3)])
    subgoal premises p2 for k s2
    proof (cases "j < k")
      case False
      with p2 show ?thesis by simp
    next
      case True
      note d = p2(3)[unfolded if_P[OF True]]
      show ?thesis
        unfolding if_P[OF True]
        apply (rule for_each_succeeds[where I = "\<lambda>s. define_variables md s = s \<and> cqm s \<noteq> None", OF _ p2(2) d])
        subgoal premises p3 for i s3
        proof -
          obtain tk where tk: "resource_job_tasks md k i = Some tk"
            using tasks[OF p2(1) p3(1)] by auto
          obtain tj where tj: "resource_job_tasks md j i = Some tj"
            using tasks[OF p1(1) p3(1)] by auto
          have i3: "define_variables md s3 = s3" and c3: "cqm s3 \<noteq> None" using p3(2) by simp_all
          have xs: "x s3 (j, i) = Some (x_var md j i)" "x s3 (k, i) = Some (x_var md k i)"
            "y s3 (j, k, i) = Some (y_var j k i)"
            using p1(1) p2(1) p3(1) by (simp_all add: x_defined[OF i3] y_defined[OF i3])
          show ?thesis
          proof (cases "duration tk > 0 \<and> duration tj > 0")
            case False
            with tk tj p3(2) show ?thesis by (auto simp: get_resource_job_tasks_def)
          next
            case True
            have d1: "distinct (map fst (emitted s3 @ [hd (quadratic_item md j k i)]))"
              using p3(3) True tk tj by simp
            obtain sa where a1: "self_cqm_add_constraint s3 (Inr (snd (hd (quadratic_item md j k i)))) (fst (hd (quadratic_item md j k i))) = Inr sa"
              and ia: "define_variables md sa = sa" and ca: "cqm sa \<noteq> None"
              and ea: "emitted sa = emitted s3 @ [hd (quadratic_item md j k i)]"
              using add_step_total[OF i3 c3, of "fst (hd (quadratic_item md j k i))" "snd (hd (quadratic_item md j k i))"] d1
              by auto
            show ?thesis
              using tk tj xs a1 ia ca ea True
              by (simp add: get_resource_job_tasks_def)
          qed
        qed
        done
    qed
    done
  done

lemma quadratic_tasks_defined:
  assumes run: "add_quadratic_overlap_constraint md s = Inr s'"
  shows "\<forall>j \<in> set (jobs md). \<forall>k \<in> set (jobs md). j < k \<longrightarrow>
           (\<forall>i \<in> set (resources md). resource_job_tasks md k i \<noteq> None \<and> resource_job_tasks md j i \<noteq> None)"
  apply (rule for_each_Inr_all[OF run[unfolded add_quadratic_overlap_constraint_def]])
  subgoal premises p1 for j s1 s1'
    apply (rule for_each_Inr_all[OF p1(2)])
    subgoal premises p2 for k s2 s2'
    proof
      assume lt: "j < k"
      note r = p2(2)[unfolded if_P[OF lt]]
      show "\<forall>i \<in> set (resources md). resource_job_tasks md k i \<noteq> None \<and> resource_job_tasks md j i \<noteq> None"
        apply (rule for_each_Inr_all[OF r])
        subgoal premises p3 for i s3 s3'
          using p3(2)
          by (auto simp: get_resource_job_tasks_def split: option.splits sum.splits)
        done
    qed
    done
  done

lemma distinct_guarded_triples:
  assumes "distinct js" "distinct rs"
  shows "distinct (concat (map (\<lambda>j. concat (map (\<lambda>k. if j < k then concat (map (\<lambda>i. if c j k i then [(j, k, i)] else []) rs) else [])
                                       js)) (js :: int list)))"
proof (rule distinct_concat_map[OF assms(1)])
  fix j :: int
  show "distinct (concat (map (\<lambda>k. if j < k then concat (map (\<lambda>i. if c j k i then [(j, k, i)] else []) rs) else []) js))"
  proof (rule distinct_concat_map[OF assms(1)])
    fix k :: int
    have "distinct (concat (map (\<lambda>i. if c j k i then [(j, k, i)] else []) rs))"
      by (rule distinct_concat_map[OF assms(2)]) auto
    then show "distinct (if j < k then concat (map (\<lambda>i. if c j k i then [(j, k, i)] else []) rs) else [])"
      by simp
  next
    fix k k' :: int
    assume "k \<noteq> k'"
    then show "set (if j < k then concat (map (\<lambda>i. if c j k i then [(j, k, i)] else []) rs) else []) \<inter>
               set (if j < k' then concat (map (\<lambda>i. if c j k' i then [(j, k', i)] else []) rs) else []) = {}"
      by (auto split: if_splits)
  qed
next
  fix j j' :: int
  assume "j \<noteq> j'"
  then show "set (concat (map (\<lambda>k. if j < k then concat (map (\<lambda>i. if c j k i then [(j, k, i)] else []) rs) else []) js)) \<inter>
        set (concat (map (\<lambda>k. if j' < k then concat (map (\<lambda>i. if c j' k i then [(j', k, i)] else []) rs) else []) js)) = {}"
    by (auto split: if_splits)
qed

lemma quadratic_labels:
  "map fst (quadratic_block md) =
     map (\<lambda>(j, k, i). ''OneJobj'' @ str_int j @ ''_j'' @ str_int k @ ''_m'' @ str_int i)
       (concat (map (\<lambda>j. concat (map (\<lambda>k. if j < k then concat (map (\<lambda>i. if task_duration md k i > 0 \<and> task_duration md j i > 0 then [(j, k, i)] else []) (resources md)) else [])
                                       (jobs md))) (jobs md)))"
  by (simp add: map_concat o_def if_distrib cong: if_cong)

lemma quadratic_labels_distinct:
  assumes "distinct (jobs md)" "distinct (resources md)"
  shows "distinct (map fst (quadratic_block md))"
proof -
  have "inj (\<lambda>(j, k, i). ''OneJobj'' @ str_int j @ ''_j'' @ str_int k @ ''_m'' @ str_int i)"
  proof (rule injI)
    fix t t' :: "int \<times> int \<times> int"
    obtain j k i where t: "t = (j, k, i)" by (cases t) auto
    obtain j' k' i' where t': "t' = (j', k', i')" by (cases t') auto
    assume "(case t of (j, k, i) \<Rightarrow> ''OneJobj'' @ str_int j @ ''_j'' @ str_int k @ ''_m'' @ str_int i)
          = (case t' of (j, k, i) \<Rightarrow> ''OneJobj'' @ str_int j @ ''_j'' @ str_int k @ ''_m'' @ str_int i)"
    then have "str_int j @ ''_j'' @ str_int k @ ''_m'' @ str_int i = str_int j' @ ''_j'' @ str_int k' @ ''_m'' @ str_int i'"
      by (simp add: t t')
    from label3_inj[OF this] show "t = t'" by (simp add: t t')
  qed
  then have "inj_on (\<lambda>(j, k, i). ''OneJobj'' @ str_int j @ ''_j'' @ str_int k @ ''_m'' @ str_int i) A" for A
    by (rule inj_on_subset) simp
  then show ?thesis
    unfolding quadratic_labels
    by (simp add: distinct_map distinct_guarded_triples[OF assms])
qed

lemma quadratic_labels_prefix:
  "l \<in> set (map fst (quadratic_block md)) \<Longrightarrow> prefix ''OneJobj'' l"
  by (auto split: if_splits)

section \<open>The instance with a zero duration\<close>

lemma zero_model_defined: "define_variables zero_data zero_model = zero_model"
  by (simp add: zero_model_def define_variables_def)

lemma zero_model_cqm: "cqm zero_model = Some ConstrainedQuadraticModel"
  by (simp add: zero_model_def define_variables_def define_cqm_model_def)

lemma zero_model_emitted: "emitted zero_model = []"
  by (simp add: emitted_def zero_model_cqm ConstrainedQuadraticModel_def)

lemma zero_tasks_defined:
  "\<forall>j i. j \<in> set (jobs zero_data) \<and> i \<in> set (resources zero_data) \<longrightarrow> resource_job_tasks zero_data j i \<noteq> None"
  by (auto simp: zero_data_def zero_tasks_def)

section \<open>Precedence constraints\<close>

lemma precedence_emitted:
  assumes inv: "define_variables md s = s"
    and run: "add_precedence_constraints md s = Inr s'"
  shows "define_variables md s' = s' \<and> emitted s' = emitted s @ precedence_block md"
  apply (rule for_each_emits[where I = "\<lambda>s. define_variables md s = s", OF _ inv run[unfolded add_precedence_constraints_def]])
  subgoal premises p1 for job s1 s1'
  proof -
    from p1(3) obtain ts where ts: "job_tasks md job = Some ts"
      by (auto split: option.splits)
    note r = p1(3)[unfolded ts option.case]
    show ?thesis
      unfolding ts option.sel
      apply (rule for_each_emits[where I = "\<lambda>s. define_variables md s = s", OF _ p1(2) r])
      subgoal premises p2 for pc s2 s2'
      proof -
        obtain prev curr where pc: "pc = (prev, curr)" by (cases pc) auto
        from p2(3) obtain c where
          arg: "(case x s2 (job, resource curr) of None \<Rightarrow> Inl KeyError
                 | Some x_curr \<Rightarrow> (case x s2 (job, resource prev) of None \<Rightarrow> Inl KeyError
                     | Some x_prev \<Rightarrow> Inr (Ge (Sub (Var x_curr) (Var x_prev)) (duration prev)))) = Inr c"
          and a: "self_cqm_add_constraint s2 (Inr c) (''pj'' @ str_int job @ ''_m'' @ str_int (resource curr)) = Inr s2'"
          unfolding pc by (auto simp: self_cqm_add_constraint_Inr Let_def)
        from arg have "c = snd (precedence_item md job pc)"
          unfolding pc
          by (auto simp: x_defined[OF p2(2)] split: option.splits if_splits)
        with add_step[OF p2(2) a] show ?thesis by (simp add: pc)
      qed
      done
  qed
  done

lemma precedence_succeeds:
  assumes inv: "define_variables md s = s \<and> cqm s \<noteq> None"
    and tasks: "\<And>job. job \<in> set (jobs md) \<Longrightarrow>
                 \<exists>ts. job_tasks md job = Some ts \<and> set (map resource ts) \<subseteq> set (resources md)"
    and dist: "distinct (map fst (emitted s @ precedence_block md))"
  shows "\<exists>s'. add_precedence_constraints md s = Inr s' \<and> (define_variables md s' = s' \<and> cqm s' \<noteq> None) \<and>
           emitted s' = emitted s @ precedence_block md"
  unfolding add_precedence_constraints_def
  apply (rule for_each_succeeds[where I = "\<lambda>s. define_variables md s = s \<and> cqm s \<noteq> None", OF _ inv dist])
  subgoal premises p1 for job s1
  proof -
    from tasks[OF p1(1)] obtain ts where ts: "job_tasks md job = Some ts"
      and rs: "set (map resource ts) \<subseteq> set (resources md)" by blast
    note d = p1(3)[unfolded ts option.sel]
    show ?thesis
      unfolding ts option.sel option.case
      apply (rule for_each_succeeds[where I = "\<lambda>s. define_variables md s = s \<and> cqm s \<noteq> None", OF _ p1(2) d])
      subgoal premises p2 for pc s2
      proof -
        obtain prev curr where pc: "pc = (prev, curr)" by (cases pc) auto
        have "prev \<in> set (butlast ts)" "curr \<in> set (tl ts)"
          using p2(1) unfolding pc by (auto dest: set_zip_leftD set_zip_rightD)
        then have "prev \<in> set ts" "curr \<in> set ts"
          by (auto dest: in_set_butlastD) (cases ts, auto)
        then have m: "resource prev \<in> set (resources md)" "resource curr \<in> set (resources md)"
          using rs by auto
        have i2: "define_variables md s2 = s2" and c2: "cqm s2 \<noteq> None" using p2(2) by simp_all
        have xs: "x s2 (job, resource curr) = Some (x_var md job (resource curr))"
          "x s2 (job, resource prev) = Some (x_var md job (resource prev))"
          using p1(1) m by (simp_all add: x_defined[OF i2])
        have d1: "distinct (map fst (emitted s2 @ [precedence_item md job pc]))"
          using p2(3) by simp
        obtain sa where a1: "self_cqm_add_constraint s2 (Inr (snd (precedence_item md job pc))) (fst (precedence_item md job pc)) = Inr sa"
          and ia: "define_variables md sa = sa" and ca: "cqm sa \<noteq> None"
          and ea: "emitted sa = emitted s2 @ [precedence_item md job pc]"
          using add_step_total[OF i2 c2, of "fst (precedence_item md job pc)" "snd (precedence_item md job pc)"] d1
          by auto
        show ?thesis
          using xs a1 ia ca ea
          by (simp add: pc Let_def)
      qed
      done
  qed
  done

lemma precedence_jobs_defined:
  assumes run: "add_precedence_constraints md s = Inr s'"
  shows "\<forall>job \<in> set (jobs md). job_tasks md job \<noteq> None"
  apply (rule for_each_Inr_all[OF run[unfolded add_precedence_constraints_def]])
  subgoal premises p1 for job s1 s1'
    using p1(2) by (auto split: option.splits)
  done

lemma zip_butlast_tl:
  "zip (butlast ts) (tl ts) = map (\<lambda>n. (ts ! (n - 1), ts ! n)) [1..<length ts]"
proof (rule nth_equalityI)
  show "length (zip (butlast ts) (tl ts)) = length (map (\<lambda>n. (ts ! (n - 1), ts ! n)) [1..<length ts])"
    by simp
next
  fix i
  assume "i < length (zip (butlast ts) (tl ts))"
  then have i: "i < length ts - 1" by simp
  then show "zip (butlast ts) (tl ts) ! i = map (\<lambda>n. (ts ! (n - 1), ts ! n)) [1..<length ts] ! i"
    by (simp add: nth_butlast nth_tl)
qed

lemma distinct_job_items:
  assumes "distinct js" "\<And>j. j \<in> set js \<Longrightarrow> distinct (h j)"
  shows "distinct (concat (map (\<lambda>j. map (\<lambda>m. (j, m)) (h j)) js))"
  by (rule distinct_concat_map[OF assms(1)]) (auto simp: distinct_map inj_on_def assms(2))

lemma map_snd_zip_butlast_tl:
  "map (\<lambda>pc. g (snd pc)) (zip (butlast ts) (tl ts)) = map g (tl ts)"
proof -
  have "map snd (zip (butlast ts) (tl ts)) = tl ts"
    by (rule map_snd_zip) simp
  then have "map g (map snd (zip (butlast ts) (tl ts))) = map g (tl ts)" by (simp only:)
  then show ?thesis by (simp only: map_map o_def)
qed

lemma precedence_labels:
  "map fst (precedence_block md) =
     map (\<lambda>(job, m). ''pj'' @ str_int job @ ''_m'' @ str_int m)
       (concat (map (\<lambda>job. map (\<lambda>m. (job, m)) (map resource (tl (the (job_tasks md job))))) (jobs md)))"
proof -
  have inner: "map (\<lambda>pc. ''pj'' @ str_int job @ ''_m'' @ str_int (resource (snd pc))) (zip (butlast ts) (tl ts))
      = map (\<lambda>t. ''pj'' @ str_int job @ ''_m'' @ str_int (resource t)) (tl ts)"
    for job and ts :: "task list"
    by (rule map_snd_zip_butlast_tl[of "\<lambda>t. ''pj'' @ str_int job @ ''_m'' @ str_int (resource t)"])
  show ?thesis
    by (simp add: map_concat o_def inner[simplified])
qed

lemma pj_label_inj:
  "inj (\<lambda>(job, m). ''pj'' @ str_int job @ ''_m'' @ str_int m)"
proof (rule injI)
  fix t t' :: "int \<times> int"
  obtain j m where t: "t = (j, m)" by (cases t) auto
  obtain j' m' where t': "t' = (j', m')" by (cases t') auto
  assume "(case t of (job, m) \<Rightarrow> ''pj'' @ str_int job @ ''_m'' @ str_int m)
        = (case t' of (job, m) \<Rightarrow> ''pj'' @ str_int job @ ''_m'' @ str_int m)"
  then have "str_int j @ CHR ''_'' # CHR ''m'' # str_int m = str_int j' @ CHR ''_'' # CHR ''m'' # str_int m'"
    by (simp add: t t')
  from label2_inj[OF this] show "t = t'" by (simp add: t t')
qed

lemma precedence_labels_distinct:
  assumes "distinct (jobs md)"
    and "\<And>job. job \<in> set (jobs md) \<Longrightarrow> distinct (map resource (tl (the (job_tasks md job))))"
  shows "distinct (map fst (precedence_block md))"
proof -
  have "inj_on (\<lambda>(job, m). ''pj'' @ str_int job @ ''_m'' @ str_int m) A" for A
    using pj_label_inj by (rule inj_on_subset) simp
  moreover have "distinct (concat (map (\<lambda>job. map (\<lambda>m. (job, m)) (map resource (tl (the (job_tasks md job))))) (jobs md)))"
    by (rule distinct_job_items[OF assms(1)]) (rule assms(2))
  ultimately show ?thesis
    unfolding precedence_labels
    by (intro iffD2[OF distinct_map] conjI)
qed

lemma precedence_labels_prefix:
  "l \<in> set (map fst (precedence_block md)) \<Longrightarrow> prefix ''pj'' l"
  by auto

section \<open>The instance with a single-task job\<close>

lemma single_model_defined: "define_variables single_data single_model = single_model"
  by (simp add: single_model_def define_variables_def)

lemma single_model_cqm: "cqm single_model = Some ConstrainedQuadraticModel"
  by (simp add: single_model_def define_variables_def define_cqm_model_def)

lemma single_model_emitted: "emitted single_model = []"
  by (simp add: emitted_def single_model_cqm ConstrainedQuadraticModel_def)

lemma precedence_block_indexed:
  "precedence_block md =
     [precedence_item md job (ts ! (n - 1), ts ! n).
        job \<leftarrow> jobs md, ts \<leftarrow> [the (job_tasks md job)], n \<leftarrow> [1..<length ts]]"
  by (simp add: zip_butlast_tl map_concat o_def)

section \<open>The makespan constraint and the objective\<close>

lemma makespan_emitted:
  assumes inv: "define_variables md s = s"
    and run: "add_makespan_constraint md s = Inr s'"
  shows "define_variables md s' = s' \<and> emitted s' = emitted s @ makespan_block md"
  apply (rule for_each_emits[where I = "\<lambda>s. define_variables md s = s", OF _ inv run[unfolded add_makespan_constraint_def]])
  subgoal premises p1 for job s1 s1'
  proof -
    from p1(3) obtain ts where ts: "job_tasks md job = Some ts" and ne: "ts \<noteq> []"
      by (auto split: option.splits if_splits)
    from p1(3) ts ne obtain c where
      arg: "(case x s1 (job, resource (last ts)) of None \<Rightarrow> Inl KeyError
             | Some x_last \<Rightarrow> (case makespan s1 of None \<Rightarrow> Inl TypeError
                 | Some mk \<Rightarrow> Inr (Ge (Sub (Var mk) (Var x_last)) (duration (last ts))))) = Inr c"
      and a: "self_cqm_add_constraint s1 (Inr c) (''makespan_ctr'' @ str_int job) = Inr s1'"
      by (auto simp: self_cqm_add_constraint_Inr Let_def)
    from arg have "c = snd (makespan_item md job)"
      by (auto simp: x_defined[OF p1(2)] makespan_defined[OF p1(2)] ts split: option.splits if_splits)
    with add_step[OF p1(2) a] show ?thesis by simp
  qed
  done

lemma makespan_succeeds:
  assumes inv: "define_variables md s = s \<and> cqm s \<noteq> None"
    and tasks: "\<And>job. job \<in> set (jobs md) \<Longrightarrow>
                 \<exists>ts. job_tasks md job = Some ts \<and> ts \<noteq> [] \<and> resource (last ts) \<in> set (resources md)"
    and dist: "distinct (map fst (emitted s @ makespan_block md))"
  shows "\<exists>s'. add_makespan_constraint md s = Inr s' \<and> (define_variables md s' = s' \<and> cqm s' \<noteq> None) \<and>
           emitted s' = emitted s @ makespan_block md"
  unfolding add_makespan_constraint_def
  apply (rule for_each_succeeds[where I = "\<lambda>s. define_variables md s = s \<and> cqm s \<noteq> None", OF _ inv dist])
  subgoal premises p1 for job s1
  proof -
    from tasks[OF p1(1)] obtain ts where ts: "job_tasks md job = Some ts" and ne: "ts \<noteq> []"
      and rs: "resource (last ts) \<in> set (resources md)" by blast
    have i1: "define_variables md s1 = s1" and c1: "cqm s1 \<noteq> None" using p1(2) by simp_all
    have xs: "x s1 (job, resource (last ts)) = Some (x_var md job (resource (last ts)))"
      using p1(1) rs by (simp add: x_defined[OF i1])
    have d1: "distinct (map fst (emitted s1 @ [makespan_item md job]))"
      using p1(3) by simp
    obtain sa where a1: "self_cqm_add_constraint s1 (Inr (snd (makespan_item md job))) (fst (makespan_item md job)) = Inr sa"
      and ia: "define_variables md sa = sa" and ca: "cqm sa \<noteq> None"
      and ea: "emitted sa = emitted s1 @ [makespan_item md job]"
      using add_step_total[OF i1 c1, of "fst (makespan_item md job)" "snd (makespan_item md job)"] d1
      by auto
    show ?thesis
      using xs a1 ia ca ea ts ne makespan_defined[OF i1]
      by (simp add: Let_def)
  qed
  done

lemma makespan_jobs_defined:
  assumes run: "add_makespan_constraint md s = Inr s'"
  shows "\<forall>job \<in> set (jobs md). \<exists>ts. job_tasks md job = Some ts \<and> ts \<noteq> []"
  apply (rule for_each_Inr_all[OF run[unfolded add_makespan_constraint_def]])
  subgoal premises p1 for job s1 s1'
    using p1(2) by (auto split: option.splits if_splits)
  done

lemma makespan_labels_distinct:
  assumes "distinct (jobs md)"
  shows "distinct (map fst (makespan_block md))"
proof -
  have "inj_on (\<lambda>job. ''makespan_ctr'' @ str_int job) A" for A
    by (rule inj_onI) (simp add: str_int_inj)
  moreover have "map fst (makespan_block md) = map (\<lambda>job. ''makespan_ctr'' @ str_int job) (jobs md)"
    by (simp add: map_concat o_def)
  ultimately show ?thesis
    using assms by (simp only: distinct_map)
qed

lemma makespan_labels_prefix:
  "l \<in> set (map fst (makespan_block md)) \<Longrightarrow> prefix ''makespan_ctr'' l"
  by auto

lemma objective_defined:
  assumes "define_variables md s = s" "cqm s = Some m"
  shows "define_objective_function s = Inr (s\<lparr>cqm := Some (m\<lparr>objective := Var (makespan_var md)\<rparr>)\<rparr>)"
  using assms makespan_defined[OF assms(1)]
  by (simp add: define_objective_function_def set_objective_def)

section \<open>Sample sets and loops with an invariant\<close>

lemma first_ss_Inr:
  fixes ss :: "('e::linorder) sampleset"
  assumes "first_ss ss = Inr r"
  shows "r \<in> set ss \<and> (\<forall>r' \<in> set ss. energy r \<le> energy r')"
proof -
  from assms obtain rest where s: "sort_key energy ss = r # rest"
    by (auto simp: first_ss_def split: list.splits)
  have "set (sort_key energy ss) = set ss" by simp
  with s have m: "set ss = insert r (set rest)" by simp
  have "sorted (map energy (sort_key energy ss))" by (rule sorted_sort_key)
  with s have "\<forall>r' \<in> set rest. energy r \<le> energy r'" by simp
  with m show ?thesis by auto
qed

lemma first_ss_nonempty:
  fixes ss :: "('e::linorder) sampleset"
  assumes "ss \<noteq> []"
  shows "\<exists>r. first_ss ss = Inr r"
proof -
  have "length (sort_key energy ss) = length ss" by simp
  with assms have "sort_key energy ss \<noteq> []" by (metis length_0_conv)
  then show ?thesis by (auto simp: first_ss_def split: list.splits)
qed

lemma first_truncate:
  fixes ss :: "('e::linorder) sampleset"
  assumes "0 < n"
  shows "first_ss (truncate_ss n ss) = first_ss ss"
proof -
  have "sorted (map energy (sort_key energy ss))" by (rule sorted_sort_key)
  then have "sorted (take n (map energy (sort_key energy ss)))" by (rule sorted_wrt_take)
  then have "sorted (map energy (take n (sort_key energy ss)))" by (simp add: take_map)
  then have i: "sort_key energy (take n (sort_key energy ss)) = take n (sort_key energy ss)"
    by (rule sort_key_id_if_sorted)
  from assms obtain n' where n: "n = Suc n'" by (cases n) auto
  show ?thesis
    unfolding first_ss_def truncate_ss_def i
    by (cases "sort_key energy ss") (simp_all add: n)
qed

lemma for_each_keeps:
  assumes "for_each bs body t = Inr t'" and "Q t"
    and "\<And>b u u'. Q u \<Longrightarrow> b \<in> set bs \<Longrightarrow> body b u = Inr u' \<Longrightarrow> Q u'"
  shows "Q t'"
  using assms
proof (induction bs arbitrary: t)
  case Nil
  then show ?case by simp
next
  case (Cons b bs)
  from Cons.prems(1) obtain t1 where b1: "body b t = Inr t1" and r1: "for_each bs body t1 = Inr t'"
    by (auto split: sum.splits)
  have q1: "Q t1" using Cons.prems(3)[of t b t1] Cons.prems(2) b1 by simp
  show ?case
  proof (rule Cons.IH[OF r1 q1])
    show "Q u'" if "Q u" "c \<in> set bs" "body c u = Inr u'" for c u u'
      using Cons.prems(3)[of u c u'] that by simp
  qed
qed

lemma for_each_Inr_inv:
  assumes "for_each as body s = Inr s'"
    and "\<And>a t t'. a \<in> set as \<Longrightarrow> body a t = Inr t' \<Longrightarrow> Q a t'"
    and "\<And>a b t t'. Q a t \<Longrightarrow> b \<in> set as \<Longrightarrow> body b t = Inr t' \<Longrightarrow> Q a t'"
  shows "\<forall>a \<in> set as. Q a s'"
  using assms
proof (induction as arbitrary: s)
  case Nil
  then show ?case by simp
next
  case (Cons a as)
  from Cons.prems(1) obtain s1 where b: "body a s = Inr s1" and r: "for_each as body s1 = Inr s'"
    by (auto split: sum.splits)
  have q: "Q a s1" using Cons.prems(2)[of a s s1] b by simp
  have "Q a s'"
  proof (rule for_each_keeps[where Q = "Q a", OF r q])
    show "Q a u'" if "Q a u" "c \<in> set as" "body c u = Inr u'" for c u u'
      using Cons.prems(3)[of a u c u'] that by simp
  qed
  moreover have "\<forall>a \<in> set as. Q a s'"
  proof (rule Cons.IH[OF r])
    show "Q a' t'" if "a' \<in> set as" "body a' t = Inr t'" for a' t t'
      using Cons.prems(2)[of a' t t'] that by simp
    show "Q a' t'" if "Q a' t" "b \<in> set as" "body b t = Inr t'" for a' b t t'
      using Cons.prems(3)[of a' t b t'] that by simp
  qed
  ultimately show ?case by simp
qed

lemma for_each_total:
  assumes "\<And>a t. a \<in> set as \<Longrightarrow> \<exists>t'. body a t = Inr t'"
  shows "\<exists>s'. for_each as body s = Inr s'"
  using assms
proof (induction as arbitrary: s)
  case Nil
  then show ?case by simp
next
  case (Cons a as)
  obtain s1 where b: "body a s = Inr s1" using Cons.prems[of a s] by auto
  have "\<exists>s'. for_each as body s1 = Inr s'"
    by (rule Cons.IH) (use Cons.prems in auto)
  with b show ?case by simp
qed

section \<open>The local MIP solver leaves the completion time alone\<close>

lemma call_mip_solver_completion_time:
  fixes sample_cqm :: "cqm_model option \<Rightarrow> int \<Rightarrow> error + ('e::linorder) sampleset"
  assumes "snd (call_mip_solver sample_cqm time_limit self) = Inr self'"
  shows "completion_time self' = completion_time self"
proof (cases "sample_cqm (cqm self) time_limit")
  case (Inl e)
  with assms show ?thesis by (simp add: call_mip_solver_def)
next
  case sol: (Inr sol)
  show ?thesis
  proof (cases "first_ss sol")
    case (Inl e)
    with assms sol show ?thesis by (simp add: call_mip_solver_def)
  next
    case r: (Inr r)
    note run = assms[unfolded call_mip_solver_def Let_def snd_conv sol r sum.case]
    show ?thesis
      apply (rule for_each_keeps[where Q = "\<lambda>s. completion_time s = completion_time self", OF run])
       apply simp
      apply (auto split: if_splits list.splits sum.splits)
      done
  qed
qed

section \<open>The hybrid solver: selection and extraction\<close>

lemma feasible_count:
  "(0 < length (filter_ss is_feasible raw)) = (\<exists>r \<in> set raw. is_feasible r)"
  by (simp add: filter_ss_def filter_empty_conv)

lemma call_cqm_solver_events:
  fixes sample_cqm :: "cqm_model option \<Rightarrow> int option \<Rightarrow> error + ('e::linorder) sampleset"
  assumes "sample_cqm (cqm self) time_limit = Inr raw"
  shows "fst (call_cqm_solver sample_cqm time_limit md self) =
           SampleCQM (cqm self) time_limit #
             (if \<exists>r \<in> set raw. is_feasible r then [] else [Warn ''Warning: Did not find feasible solution''])"
  using assms feasible_count[of raw]
  by (simp add: call_cqm_solver_def Let_def)

lemma best_of_samples:
  fixes raw :: "('e::linorder) sampleset"
  shows "first_ss (if 0 < length (filter_ss is_feasible raw)
                   then truncate_ss (min 10 (length (filter_ss is_feasible raw))) (filter_ss is_feasible raw)
                   else truncate_ss 10 raw) =
         first_ss (if \<exists>r \<in> set raw. is_feasible r then filter is_feasible raw else raw)"
proof (cases "\<exists>r \<in> set raw. is_feasible r")
  case True
  then have n: "0 < length (filter_ss is_feasible raw)" by (rule iffD2[OF feasible_count])
  then have "0 < min 10 (length (filter_ss is_feasible raw))" by simp
  from first_truncate[OF this] n True show ?thesis by (simp add: filter_ss_def)
next
  case False
  then have n: "\<not> 0 < length (filter_ss is_feasible raw)" using feasible_count[of raw] by blast
  have "first_ss (truncate_ss 10 raw) = first_ss raw" by (rule first_truncate) simp
  with n False show ?thesis by simp
qed

lemma call_cqm_solver_result:
  fixes sample_cqm :: "cqm_model option \<Rightarrow> int option \<Rightarrow> error + ('e::linorder) sampleset"
  assumes "sample_cqm (cqm self) time_limit = Inr raw"
  shows "snd (call_cqm_solver sample_cqm time_limit md self) =
           (case first_ss (if \<exists>r \<in> set raw. is_feasible r then filter is_feasible raw else raw) of
              Inl e \<Rightarrow> Inl e
            | Inr r \<Rightarrow>
                (case for_each [(i, j). i \<leftarrow> resources md, j \<leftarrow> jobs md] (extract_item md self (sample r)) [] of
                   Inl e \<Rightarrow> Inl e
                 | Inr sol \<Rightarrow>
                     (case item (sample r) ''makespan'' of
                        Inl e \<Rightarrow> Inl e
                      | Inr v \<Rightarrow> Inr (self\<lparr>best_sample := sample r, solution := sol, completion_time := v\<rparr>))))"
proof -
  have b: "(\<lambda>(i, j) sol.
                          case get_resource_job_tasks md j i of
                            Inl e \<Rightarrow> Inl e
                          | Inr t \<Rightarrow>
                              (case x (self\<lparr>best_sample := smp\<rparr>) (j, i) of
                                 None \<Rightarrow> Inl KeyError
                               | Some v \<Rightarrow>
                                   (case item (best_sample (self\<lparr>best_sample := smp\<rparr>)) (label v) of
                                      Inl e \<Rightarrow> Inl e
                                    | Inr start \<Rightarrow>
                                        (case get_resource_job_tasks md j i of
                                           Inl e \<Rightarrow> Inl e
                                         | Inr t' \<Rightarrow>
                                             Inr (AList.update (j, i) (t, start, duration t') sol)))))
         = extract_item md self smp" for smp
    by (simp add: extract_item_def cong: sum.case_cong option.case_cong)
  show ?thesis
    unfolding call_cqm_solver_def Let_def assms sum.case snd_conv b best_of_samples
    by (simp split: sum.splits)
qed

lemma item_Inr: "item d k = Inr v \<longleftrightarrow> map_of d k = Some v"
  by (simp add: item_def split: option.splits)

lemma item_total: "k \<in> fst ` set d \<Longrightarrow> \<exists>v. item d k = Inr v"
proof -
  assume "k \<in> fst ` set d"
  then have "map_of d k \<noteq> None" by (simp add: map_of_eq_None_iff)
  then show ?thesis by (auto simp: item_def)
qed

lemma extract_sound:
  assumes "for_each items (extract_item md self smp) acc = Inr sol"
  shows "\<forall>a \<in> set items. \<exists>t v start.
           resource_job_tasks md (snd a) (fst a) = Some t \<and> x self (snd a, fst a) = Some v \<and>
           item smp (label v) = Inr start \<and>
           map_of sol (snd a, fst a) = Some (t, start, duration t)"
proof (rule for_each_Inr_inv[OF assms])
  fix a u u'
  assume "extract_item md self smp a u = Inr u'"
  then show "\<exists>t v start.
           resource_job_tasks md (snd a) (fst a) = Some t \<and> x self (snd a, fst a) = Some v \<and>
           item smp (label v) = Inr start \<and>
           map_of u' (snd a, fst a) = Some (t, start, duration t)"
    by (cases a)
      (auto simp: extract_item_def get_resource_job_tasks_def update_conv'
            split: option.splits sum.splits)
next
  fix a b u u'
  assume q: "\<exists>t v start.
           resource_job_tasks md (snd a) (fst a) = Some t \<and> x self (snd a, fst a) = Some v \<and>
           item smp (label v) = Inr start \<and>
           map_of u (snd a, fst a) = Some (t, start, duration t)"
    and s: "extract_item md self smp b u = Inr u'"
  from s show "\<exists>t v start.
           resource_job_tasks md (snd a) (fst a) = Some t \<and> x self (snd a, fst a) = Some v \<and>
           item smp (label v) = Inr start \<and>
           map_of u' (snd a, fst a) = Some (t, start, duration t)"
    using q
    by (cases a, cases b)
      (auto simp: extract_item_def get_resource_job_tasks_def update_conv'
            split: option.splits sum.splits)
qed

lemma extract_total:
  assumes "\<And>a. a \<in> set items \<Longrightarrow>
             resource_job_tasks md (snd a) (fst a) \<noteq> None \<and>
             (\<exists>v. x self (snd a, fst a) = Some v \<and> label v \<in> fst ` set smp)"
  shows "\<exists>sol. for_each items (extract_item md self smp) acc = Inr sol"
proof (rule for_each_total)
  fix a u
  assume "a \<in> set items"
  from assms[OF this] obtain t v where t: "resource_job_tasks md (snd a) (fst a) = Some t"
    and v: "x self (snd a, fst a) = Some v" and l: "label v \<in> fst ` set smp" by auto
  from item_total[OF l] obtain start where "item smp (label v) = Inr start" by blast
  with t v show "\<exists>u'. extract_item md self smp a u = Inr u'"
    by (cases a) (simp add: extract_item_def get_resource_job_tasks_def)
qed

section \<open>The variables of the built model\<close>

lemma eval_expr_cong:
  "(\<And>v. v \<in> set (variables e) \<Longrightarrow> \<sigma> (label v) = \<sigma>' (label v)) \<Longrightarrow> eval_expr \<sigma> e = eval_expr \<sigma>' e"
  by (induction e) auto

lemma holds_cong:
  "(\<And>v. v \<in> set (variables_of c) \<Longrightarrow> \<sigma> (label v) = \<sigma>' (label v)) \<Longrightarrow> holds \<sigma> c = holds \<sigma>' c"
  by (cases c) (simp add: eval_expr_cong[of _ \<sigma> \<sigma>'])

lemma precedence_block_variables:
  assumes "lc \<in> set (precedence_block md)" "v \<in> set (variables_of (snd lc))"
  shows "\<exists>j i. v = x_var md j i"
  using assms by auto (blast+)?

lemma makespan_block_variables:
  assumes "lc \<in> set (makespan_block md)" "v \<in> set (variables_of (snd lc))"
  shows "v = makespan_var md \<or> (\<exists>j i. v = x_var md j i)"
  using assms by auto (blast+)?

lemma disjunctive_block_variables:
  assumes "lc \<in> set (disjunctive_block md)" "v \<in> set (variables_of (snd lc))"
  shows "(\<exists>j i. v = x_var md j i) \<or>
         (\<exists>j \<in> set (jobs md). \<exists>k \<in> set (jobs md). \<exists>i \<in> set (resources md). j < k \<and> v = y_var j k i)"
  using assms by (auto split: if_splits) (blast+)?

lemma quadratic_block_variables:
  assumes "lc \<in> set (quadratic_block md)" "v \<in> set (variables_of (snd lc))"
  shows "(\<exists>j i. v = x_var md j i) \<or>
         (\<exists>j \<in> set (jobs md). \<exists>k \<in> set (jobs md). \<exists>i \<in> set (resources md). j < k \<and> v = y_var j k i)"
  using assms by (auto split: if_splits) (blast+)?

lemma build_model_emitted:
  assumes "build_model md quad = Inr self"
  shows "define_variables md self = self \<and>
         (\<exists>m. cqm self = Some m \<and> objective m = Var (makespan_var md) \<and>
            constraints m = precedence_block md @
               (if quad then quadratic_block md else disjunctive_block md) @ makespan_block md)"
proof -
  let ?s1 = "define_variables md (define_cqm_model (JobShopSchedulingCQM md))"
  have i1: "define_variables md ?s1 = ?s1" by (simp add: define_variables_def)
  have e1: "emitted ?s1 = []"
    by (simp add: emitted_def define_variables_def define_cqm_model_def ConstrainedQuadraticModel_def)
  from assms obtain s2 where p: "add_precedence_constraints md ?s1 = Inr s2"
    by (auto simp: build_model_def Let_def split: sum.splits)
  from assms p obtain s3 where
    x3: "(if quad then add_quadratic_overlap_constraint md s2 else add_disjunctive_constraints md s2) = Inr s3"
    by (auto simp: build_model_def Let_def split: sum.splits)
  from assms p x3 obtain s4 where k: "add_makespan_constraint md s3 = Inr s4"
    by (auto simp: build_model_def Let_def split: sum.splits)
  from assms p x3 k have o: "define_objective_function s4 = Inr self"
    by (auto simp: build_model_def Let_def split: sum.splits)
  from precedence_emitted[OF i1 p] e1 have i2: "define_variables md s2 = s2"
    and e2: "emitted s2 = precedence_block md" by simp_all
  have i3: "define_variables md s3 = s3"
    and e3: "emitted s3 = emitted s2 @ (if quad then quadratic_block md else disjunctive_block md)"
  proof -
    show "define_variables md s3 = s3"
      using x3 quadratic_emitted[OF i2, of s3] disjunctive_emitted[OF i2, of s3]
      by (cases quad) simp_all
    show "emitted s3 = emitted s2 @ (if quad then quadratic_block md else disjunctive_block md)"
      using x3 quadratic_emitted[OF i2, of s3] disjunctive_emitted[OF i2, of s3]
      by (cases quad) simp_all
  qed
  from makespan_emitted[OF i3 k] have i4: "define_variables md s4 = s4"
    and e4: "emitted s4 = emitted s3 @ makespan_block md" by simp_all
  from o obtain m4 where m4: "cqm s4 = Some m4"
    by (auto simp: define_objective_function_def split: option.splits)
  from objective_defined[OF i4 m4] o
  have s: "self = s4\<lparr>cqm := Some (m4\<lparr>objective := Var (makespan_var md)\<rparr>)\<rparr>" by simp
  have "constraints m4 = emitted s4" using m4 by (simp add: emitted_def)
  with e2 e3 e4 have c: "constraints m4 = precedence_block md @
               (if quad then quadratic_block md else disjunctive_block md) @ makespan_block md"
    by simp
  have "define_variables md self = self"
    unfolding s by (rule define_variables_cqm_update[OF i4])
  moreover have "\<exists>m. cqm self = Some m \<and> objective m = Var (makespan_var md) \<and>
            constraints m = precedence_block md @
               (if quad then quadratic_block md else disjunctive_block md) @ makespan_block md"
    unfolding s using c by simp
  ultimately show ?thesis by blast
qed

lemma build_model_variables:
  assumes "build_model md quad = Inr self" "cqm self = Some m"
    and "lc \<in> set (constraints m)" "v \<in> set (variables_of (snd lc))"
  shows "v = makespan_var md \<or> (\<exists>j i. v = x_var md j i) \<or>
         (\<exists>j \<in> set (jobs md). \<exists>k \<in> set (jobs md). \<exists>i \<in> set (resources md). j < k \<and> v = y_var j k i)"
proof -
  from build_model_emitted[OF assms(1)] assms(2)
  have c: "constraints m = precedence_block md @
               (if quad then quadratic_block md else disjunctive_block md) @ makespan_block md"
    by auto
  from assms(3) have "lc \<in> set (precedence_block md) \<or> lc \<in> set (quadratic_block md) \<or>
      lc \<in> set (disjunctive_block md) \<or> lc \<in> set (makespan_block md)"
    unfolding c by (cases quad) (simp_all only: set_append Un_iff if_True if_False, blast+)
  then show ?thesis
    using precedence_block_variables[OF _ assms(4), of md]
      quadratic_block_variables[OF _ assms(4), of md]
      disjunctive_block_variables[OF _ assms(4), of md]
      makespan_block_variables[OF _ assms(4), of md]
    by blast
qed

lemma y_var_order:
  assumes "y_var j k i = y_var j' k' i'" "k \<le> j"
  shows "\<not> j' < k'"
proof -
  from assms(1) have "str_int j @ ''_'' @ str_int k @ ''_'' @ str_int i = str_int j' @ ''_'' @ str_int k' @ ''_'' @ str_int i'"
    by simp
  from y_label_inj[OF this] assms(2) show ?thesis by simp
qed

section \<open>The claims\<close>

text \<open>
  C1, as amended. Under the disjunctive policy the builder takes every pair of jobs
  \<open>j < k\<close> and every resource \<open>i\<close> of the data source, with no test that the two jobs
  share the resource: it looks up the task of \<open>k\<close> and the task of \<open>j\<close> on \<open>i\<close> and
  raises when one is missing. So whenever it returns, both tasks of every pair exist on
  every resource, and it has added for every such pair and resource exactly two
  constraints, labelled \<open>disjunction1...\<close> and \<open>disjunction2...\<close>, in this order. Under
  every assignment \<open>\<sigma>\<close> the first holds exactly when
  \<open>start(j,i) - start(k,i) - duration(k,i) + y[j,k,i] * V \<ge> 0\<close> and the second exactly
  when \<open>start(k,i) - start(j,i) - duration(j,i) + (1 - y[j,k,i]) * V \<ge> 0\<close>, where \<open>V\<close>
  is the data source's bound on the makespan; both are linear. The step returns when jobs
  and resources are listed once, every job has a task on every resource and the labels
  are new.
\<close>

theorem disjunctive_policy_constraints:
  assumes "define_variables md self = self" and "cqm self \<noteq> None"
  shows "(distinct (jobs md) \<and> distinct (resources md) \<and>
          (\<forall>j i. j \<in> set (jobs md) \<and> i \<in> set (resources md) \<longrightarrow> resource_job_tasks md j i \<noteq> None) \<and>
          distinct (map fst (emitted self)) \<and>
          (\<forall>l \<in> set (map fst (emitted self)). \<not> prefix ''disjunction'' l)
          \<longrightarrow> (\<exists>self'. add_disjunctive_constraints md self = Inr self'))
       \<and> (\<forall>self'. add_disjunctive_constraints md self = Inr self' \<longrightarrow>
            (\<forall>j \<in> set (jobs md). \<forall>k \<in> set (jobs md). j < k \<longrightarrow>
               (\<forall>i \<in> set (resources md). resource_job_tasks md k i \<noteq> None \<and> resource_job_tasks md j i \<noteq> None)) \<and>
            (\<exists>new. emitted self' = emitted self @ new \<and>
               map fst new =
                 [l. j \<leftarrow> jobs md, k \<leftarrow> jobs md, j < k, i \<leftarrow> resources md,
                     l \<leftarrow> [''disjunction1'' @ str_int j @ ''_j'' @ str_int k @ ''_m'' @ str_int i,
                           ''disjunction2'' @ str_int j @ ''_j'' @ str_int k @ ''_m'' @ str_int i]] \<and>
               (\<forall>\<sigma>. map (\<lambda>lc. holds \<sigma> (snd lc)) new =
                 [b. j \<leftarrow> jobs md, k \<leftarrow> jobs md, j < k, i \<leftarrow> resources md,
                     b \<leftarrow> [\<sigma> (''x'' @ str_int j @ ''_'' @ str_int i) - \<sigma> (''x'' @ str_int k @ ''_'' @ str_int i)
                             - duration (the (resource_job_tasks md k i))
                             + \<sigma> (''y'' @ str_int j @ ''_'' @ str_int k @ ''_'' @ str_int i) * get_max_makespan md \<ge> 0,
                           \<sigma> (''x'' @ str_int k @ ''_'' @ str_int i) - \<sigma> (''x'' @ str_int j @ ''_'' @ str_int i)
                             - duration (the (resource_job_tasks md j i))
                             + (1 - \<sigma> (''y'' @ str_int j @ ''_'' @ str_int k @ ''_'' @ str_int i)) * get_max_makespan md \<ge> 0]]) \<and>
               list_all (\<lambda>lc. degree_of (snd lc) \<le> 1) new))"
proof (intro conjI impI allI)
  assume h: "distinct (jobs md) \<and> distinct (resources md) \<and>
          (\<forall>j i. j \<in> set (jobs md) \<and> i \<in> set (resources md) \<longrightarrow> resource_job_tasks md j i \<noteq> None) \<and>
          distinct (map fst (emitted self)) \<and>
          (\<forall>l \<in> set (map fst (emitted self)). \<not> prefix ''disjunction'' l)"
  have d: "distinct (map fst (emitted self @ disjunctive_block md))"
  proof -
    have "distinct (map fst (disjunctive_block md))"
      using h by (intro disjunctive_labels_distinct) simp_all
    moreover have "set (map fst (emitted self)) \<inter> set (map fst (disjunctive_block md)) = {}"
      using h disjunctive_labels_prefix[of _ md] by blast
    ultimately show ?thesis using h by simp
  qed
  have "\<exists>s'. add_disjunctive_constraints md self = Inr s' \<and> (define_variables md s' = s' \<and> cqm s' \<noteq> None) \<and>
           emitted s' = emitted self @ disjunctive_block md"
    by (rule disjunctive_succeeds) (use assms h d in auto)
  then show "\<exists>self'. add_disjunctive_constraints md self = Inr self'" by blast
next
  fix self'
  assume run: "add_disjunctive_constraints md self = Inr self'"
  show "\<forall>j \<in> set (jobs md). \<forall>k \<in> set (jobs md). j < k \<longrightarrow>
               (\<forall>i \<in> set (resources md). resource_job_tasks md k i \<noteq> None \<and> resource_job_tasks md j i \<noteq> None)"
    by (rule disjunctive_tasks_defined[OF run])
  have e: "emitted self' = emitted self @ disjunctive_block md"
    using disjunctive_emitted[OF assms(1) run] by simp
  show "\<exists>new. emitted self' = emitted self @ new \<and>
               map fst new =
                 [l. j \<leftarrow> jobs md, k \<leftarrow> jobs md, j < k, i \<leftarrow> resources md,
                     l \<leftarrow> [''disjunction1'' @ str_int j @ ''_j'' @ str_int k @ ''_m'' @ str_int i,
                           ''disjunction2'' @ str_int j @ ''_j'' @ str_int k @ ''_m'' @ str_int i]] \<and>
               (\<forall>\<sigma>. map (\<lambda>lc. holds \<sigma> (snd lc)) new =
                 [b. j \<leftarrow> jobs md, k \<leftarrow> jobs md, j < k, i \<leftarrow> resources md,
                     b \<leftarrow> [\<sigma> (''x'' @ str_int j @ ''_'' @ str_int i) - \<sigma> (''x'' @ str_int k @ ''_'' @ str_int i)
                             - duration (the (resource_job_tasks md k i))
                             + \<sigma> (''y'' @ str_int j @ ''_'' @ str_int k @ ''_'' @ str_int i) * get_max_makespan md \<ge> 0,
                           \<sigma> (''x'' @ str_int k @ ''_'' @ str_int i) - \<sigma> (''x'' @ str_int j @ ''_'' @ str_int i)
                             - duration (the (resource_job_tasks md j i))
                             + (1 - \<sigma> (''y'' @ str_int j @ ''_'' @ str_int k @ ''_'' @ str_int i)) * get_max_makespan md \<ge> 0]]) \<and>
               list_all (\<lambda>lc. degree_of (snd lc) \<le> 1) new"
    apply (rule exI[where x = "disjunctive_block md"])
    apply (intro conjI allI)
       apply (rule e)
      apply (simp add: map_concat o_def if_distrib cong: if_cong)
     apply (simp add: map_concat o_def if_distrib cong: if_cong)
    apply (simp add: list_all_iff)
    done
qed

text \<open>The theorem applied to the example instance, with one assignment evaluated.\<close>

theorem disjunctive_policy_constraints_witness:
  "\<exists>self'. add_disjunctive_constraints example_data example_model = Inr self' \<and>
     map fst (emitted self') =
       [''disjunction10_j1_m1'', ''disjunction20_j1_m1'', ''disjunction10_j1_m2'', ''disjunction20_j1_m2''] \<and>
     map (\<lambda>lc. holds ((\<lambda>v. 0)(''x1_1'' := 3, ''x0_2'' := 4)) (snd lc)) (emitted self') = [False, True, True, True]"
proof -
  have c: "cqm example_model \<noteq> None" by (simp add: example_model_cqm)
  note T = disjunctive_policy_constraints[OF example_model_defined c]
  have "\<exists>self'. add_disjunctive_constraints example_data example_model = Inr self'"
    using T example_tasks_defined
    by (simp add: example_model_emitted) (simp add: example_data_def)
  then obtain self' where r: "add_disjunctive_constraints example_data example_model = Inr self'" by blast
  with T obtain new where e: "emitted self' = new"
    and l: "map fst new =
                 [l. j \<leftarrow> jobs example_data, k \<leftarrow> jobs example_data, j < k, i \<leftarrow> resources example_data,
                     l \<leftarrow> [''disjunction1'' @ str_int j @ ''_j'' @ str_int k @ ''_m'' @ str_int i,
                           ''disjunction2'' @ str_int j @ ''_j'' @ str_int k @ ''_m'' @ str_int i]]"
    and h: "\<And>\<sigma>. map (\<lambda>lc. holds \<sigma> (snd lc)) new =
                 [b. j \<leftarrow> jobs example_data, k \<leftarrow> jobs example_data, j < k, i \<leftarrow> resources example_data,
                     b \<leftarrow> [\<sigma> (''x'' @ str_int j @ ''_'' @ str_int i) - \<sigma> (''x'' @ str_int k @ ''_'' @ str_int i)
                             - duration (the (resource_job_tasks example_data k i))
                             + \<sigma> (''y'' @ str_int j @ ''_'' @ str_int k @ ''_'' @ str_int i) * get_max_makespan example_data \<ge> 0,
                           \<sigma> (''x'' @ str_int k @ ''_'' @ str_int i) - \<sigma> (''x'' @ str_int j @ ''_'' @ str_int i)
                             - duration (the (resource_job_tasks example_data j i))
                             + (1 - \<sigma> (''y'' @ str_int j @ ''_'' @ str_int k @ ''_'' @ str_int i)) * get_max_makespan example_data \<ge> 0]]"
    by (auto simp: example_model_emitted)
  have l': "map fst new = [''disjunction10_j1_m1'', ''disjunction20_j1_m1'', ''disjunction10_j1_m2'', ''disjunction20_j1_m2'']"
    unfolding l by (simp add: example_data_def str_int_0 str_int_1 str_int_2)
  have h': "map (\<lambda>lc. holds ((\<lambda>v. 0)(''x1_1'' := 3, ''x0_2'' := 4)) (snd lc)) new = [False, True, True, True]"
    unfolding h by (simp add: example_data_def example_tasks_def str_int_0 str_int_1 str_int_2)
  show ?thesis using r e l' h' by simp
qed

text \<open>
  The claim as stated, for every resource the two jobs share, fails on the instance with
  a single-task job: jobs 0 and 1 both have a task on resource 2, yet the builder adds no
  constraint for them there. It raises, because job 1 has no task on resource 1.
\<close>

theorem disjunctive_policy_counterexample:
  "resource_job_tasks single_data 0 2 = Some \<lparr>resource = 2, duration = 2\<rparr> \<and>
   resource_job_tasks single_data 1 2 = Some \<lparr>resource = 2, duration = 4\<rparr> \<and>
   resource_job_tasks single_data 1 1 = None \<and>
   map_sum id (\<lambda>s. map fst (emitted s)) (add_disjunctive_constraints single_data single_model) =
     Inl LookupError"
  by code_simp

text \<open>
  C2. Under the bilinear policy, for every pair of jobs \<open>j < k\<close> and every resource
  \<open>i\<close> whose two tasks both have a strictly positive duration, the builder adds one
  constraint, labelled \<open>OneJobj...\<close>; for the other pairs it adds nothing. Under every
  assignment \<open>\<sigma>\<close> the constraint holds exactly when
  \<open>start(j,i) - start(k,i) + (duration(k,i) - duration(j,i)) * y[j,k,i]
  + 2 * y[j,k,i] * (start(k,i) - start(j,i)) \<ge> duration(k,i)\<close>; its degree is 2. The step
  returns when jobs and resources are listed once, every job has a task on every resource
  and the labels are new; whenever it returns, both tasks of every pair exist.
\<close>

theorem bilinear_policy_constraints:
  assumes "define_variables md self = self" and "cqm self \<noteq> None"
  shows "(distinct (jobs md) \<and> distinct (resources md) \<and>
          (\<forall>j i. j \<in> set (jobs md) \<and> i \<in> set (resources md) \<longrightarrow> resource_job_tasks md j i \<noteq> None) \<and>
          distinct (map fst (emitted self)) \<and>
          (\<forall>l \<in> set (map fst (emitted self)). \<not> prefix ''OneJobj'' l)
          \<longrightarrow> (\<exists>self'. add_quadratic_overlap_constraint md self = Inr self'))
       \<and> (\<forall>self'. add_quadratic_overlap_constraint md self = Inr self' \<longrightarrow>
            (\<forall>j \<in> set (jobs md). \<forall>k \<in> set (jobs md). j < k \<longrightarrow>
               (\<forall>i \<in> set (resources md). resource_job_tasks md k i \<noteq> None \<and> resource_job_tasks md j i \<noteq> None)) \<and>
            (\<exists>new. emitted self' = emitted self @ new \<and>
               map fst new =
                 [''OneJobj'' @ str_int j @ ''_j'' @ str_int k @ ''_m'' @ str_int i.
                     j \<leftarrow> jobs md, k \<leftarrow> jobs md, j < k, i \<leftarrow> resources md,
                     duration (the (resource_job_tasks md k i)) > 0 \<and> duration (the (resource_job_tasks md j i)) > 0] \<and>
               (\<forall>\<sigma>. map (\<lambda>lc. holds \<sigma> (snd lc)) new =
                 [\<sigma> (''x'' @ str_int j @ ''_'' @ str_int i) - \<sigma> (''x'' @ str_int k @ ''_'' @ str_int i)
                    + (duration (the (resource_job_tasks md k i)) - duration (the (resource_job_tasks md j i)))
                        * \<sigma> (''y'' @ str_int j @ ''_'' @ str_int k @ ''_'' @ str_int i)
                    + 2 * \<sigma> (''y'' @ str_int j @ ''_'' @ str_int k @ ''_'' @ str_int i)
                        * (\<sigma> (''x'' @ str_int k @ ''_'' @ str_int i) - \<sigma> (''x'' @ str_int j @ ''_'' @ str_int i))
                    \<ge> duration (the (resource_job_tasks md k i)).
                     j \<leftarrow> jobs md, k \<leftarrow> jobs md, j < k, i \<leftarrow> resources md,
                     duration (the (resource_job_tasks md k i)) > 0 \<and> duration (the (resource_job_tasks md j i)) > 0]) \<and>
               list_all (\<lambda>lc. degree_of (snd lc) = 2) new))"
proof (intro conjI impI allI)
  assume h: "distinct (jobs md) \<and> distinct (resources md) \<and>
          (\<forall>j i. j \<in> set (jobs md) \<and> i \<in> set (resources md) \<longrightarrow> resource_job_tasks md j i \<noteq> None) \<and>
          distinct (map fst (emitted self)) \<and>
          (\<forall>l \<in> set (map fst (emitted self)). \<not> prefix ''OneJobj'' l)"
  have d: "distinct (map fst (emitted self @ quadratic_block md))"
  proof -
    have "distinct (map fst (quadratic_block md))"
      using h by (intro quadratic_labels_distinct) simp_all
    moreover have "set (map fst (emitted self)) \<inter> set (map fst (quadratic_block md)) = {}"
      using h quadratic_labels_prefix[of _ md] by blast
    ultimately show ?thesis using h by simp
  qed
  have "\<exists>s'. add_quadratic_overlap_constraint md self = Inr s' \<and> (define_variables md s' = s' \<and> cqm s' \<noteq> None) \<and>
           emitted s' = emitted self @ quadratic_block md"
    by (rule quadratic_succeeds) (use assms h d in auto)
  then show "\<exists>self'. add_quadratic_overlap_constraint md self = Inr self'" by blast
next
  fix self'
  assume run: "add_quadratic_overlap_constraint md self = Inr self'"
  show "\<forall>j \<in> set (jobs md). \<forall>k \<in> set (jobs md). j < k \<longrightarrow>
               (\<forall>i \<in> set (resources md). resource_job_tasks md k i \<noteq> None \<and> resource_job_tasks md j i \<noteq> None)"
    by (rule quadratic_tasks_defined[OF run])
  have e: "emitted self' = emitted self @ quadratic_block md"
    using quadratic_emitted[OF assms(1) run] by simp
  show "\<exists>new. emitted self' = emitted self @ new \<and>
               map fst new =
                 [''OneJobj'' @ str_int j @ ''_j'' @ str_int k @ ''_m'' @ str_int i.
                     j \<leftarrow> jobs md, k \<leftarrow> jobs md, j < k, i \<leftarrow> resources md,
                     duration (the (resource_job_tasks md k i)) > 0 \<and> duration (the (resource_job_tasks md j i)) > 0] \<and>
               (\<forall>\<sigma>. map (\<lambda>lc. holds \<sigma> (snd lc)) new =
                 [\<sigma> (''x'' @ str_int j @ ''_'' @ str_int i) - \<sigma> (''x'' @ str_int k @ ''_'' @ str_int i)
                    + (duration (the (resource_job_tasks md k i)) - duration (the (resource_job_tasks md j i)))
                        * \<sigma> (''y'' @ str_int j @ ''_'' @ str_int k @ ''_'' @ str_int i)
                    + 2 * \<sigma> (''y'' @ str_int j @ ''_'' @ str_int k @ ''_'' @ str_int i)
                        * (\<sigma> (''x'' @ str_int k @ ''_'' @ str_int i) - \<sigma> (''x'' @ str_int j @ ''_'' @ str_int i))
                    \<ge> duration (the (resource_job_tasks md k i)).
                     j \<leftarrow> jobs md, k \<leftarrow> jobs md, j < k, i \<leftarrow> resources md,
                     duration (the (resource_job_tasks md k i)) > 0 \<and> duration (the (resource_job_tasks md j i)) > 0]) \<and>
               list_all (\<lambda>lc. degree_of (snd lc) = 2) new"
    apply (rule exI[where x = "quadratic_block md"])
    apply (intro conjI allI)
       apply (rule e)
      apply (simp add: map_concat o_def if_distrib cong: if_cong)
     apply (simp add: map_concat o_def if_distrib cong: if_cong)
    apply (simp add: list_all_iff)
    done
qed

text \<open>
  The theorem applied to the instance with a zero duration: the pair on resource 1 is
  skipped, the pair on resource 2 gets its constraint.
\<close>

theorem bilinear_policy_constraints_witness:
  "\<exists>self'. add_quadratic_overlap_constraint zero_data zero_model = Inr self' \<and>
     map fst (emitted self') = [''OneJobj0_j1_m2''] \<and>
     map (\<lambda>lc. holds ((\<lambda>v. 0)(''x0_2'' := 4)) (snd lc)) (emitted self') = [True] \<and>
     map (\<lambda>lc. holds ((\<lambda>v. 0)(''x0_2'' := 3)) (snd lc)) (emitted self') = [False]"
proof -
  have c: "cqm zero_model \<noteq> None" by (simp add: zero_model_cqm)
  note T = bilinear_policy_constraints[OF zero_model_defined c]
  have "\<exists>self'. add_quadratic_overlap_constraint zero_data zero_model = Inr self'"
    using T zero_tasks_defined
    by (simp add: zero_model_emitted) (simp add: zero_data_def)
  then obtain self' where r: "add_quadratic_overlap_constraint zero_data zero_model = Inr self'" by blast
  with T obtain new where e: "emitted self' = new"
    and l: "map fst new =
                 [''OneJobj'' @ str_int j @ ''_j'' @ str_int k @ ''_m'' @ str_int i.
                     j \<leftarrow> jobs zero_data, k \<leftarrow> jobs zero_data, j < k, i \<leftarrow> resources zero_data,
                     duration (the (resource_job_tasks zero_data k i)) > 0 \<and> duration (the (resource_job_tasks zero_data j i)) > 0]"
    and h: "\<And>\<sigma>. map (\<lambda>lc. holds \<sigma> (snd lc)) new =
                 [\<sigma> (''x'' @ str_int j @ ''_'' @ str_int i) - \<sigma> (''x'' @ str_int k @ ''_'' @ str_int i)
                    + (duration (the (resource_job_tasks zero_data k i)) - duration (the (resource_job_tasks zero_data j i)))
                        * \<sigma> (''y'' @ str_int j @ ''_'' @ str_int k @ ''_'' @ str_int i)
                    + 2 * \<sigma> (''y'' @ str_int j @ ''_'' @ str_int k @ ''_'' @ str_int i)
                        * (\<sigma> (''x'' @ str_int k @ ''_'' @ str_int i) - \<sigma> (''x'' @ str_int j @ ''_'' @ str_int i))
                    \<ge> duration (the (resource_job_tasks zero_data k i)).
                     j \<leftarrow> jobs zero_data, k \<leftarrow> jobs zero_data, j < k, i \<leftarrow> resources zero_data,
                     duration (the (resource_job_tasks zero_data k i)) > 0 \<and> duration (the (resource_job_tasks zero_data j i)) > 0]"
    by (auto simp: zero_model_emitted)
  have l': "map fst new = [''OneJobj0_j1_m2'']"
    unfolding l by (simp add: zero_data_def zero_tasks_def str_int_0 str_int_1 str_int_2)
  have h1: "map (\<lambda>lc. holds ((\<lambda>v. 0)(''x0_2'' := 4)) (snd lc)) new = [True]"
    unfolding h by (simp add: zero_data_def zero_tasks_def str_int_0 str_int_1 str_int_2)
  have h2: "map (\<lambda>lc. holds ((\<lambda>v. 0)(''x0_2'' := 3)) (snd lc)) new = [False]"
    unfolding h by (simp add: zero_data_def zero_tasks_def str_int_0 str_int_1 str_int_2)
  show ?thesis using r e l' h1 h2 by simp
qed

text \<open>
  C3. For every job and every task of its sequence but the first, the builder adds one
  precedence constraint, labelled \<open>pj<job>_m<resource of the task>\<close>, which holds under
  an assignment \<open>\<sigma>\<close> exactly when \<open>start(curr) - start(prev) \<ge> duration(prev)\<close>, where
  \<open>prev\<close> is the task before \<open>curr\<close> in the sequence. A job with \<open>n\<close> tasks so
  contributes \<open>n - 1\<close> constraints, and a job with a single task none. The step returns
  when the jobs are listed once, every job has a task sequence whose resources are
  resources of the instance and whose tasks after the first are on different resources,
  and the labels are new.
\<close>

theorem precedence_constraints:
  assumes "define_variables md self = self" and "cqm self \<noteq> None"
  shows "(distinct (jobs md) \<and>
          (\<forall>job \<in> set (jobs md). \<exists>ts. job_tasks md job = Some ts \<and>
              set (map resource ts) \<subseteq> set (resources md) \<and> distinct (map resource (tl ts))) \<and>
          distinct (map fst (emitted self)) \<and>
          (\<forall>l \<in> set (map fst (emitted self)). \<not> prefix ''pj'' l)
          \<longrightarrow> (\<exists>self'. add_precedence_constraints md self = Inr self'))
       \<and> (\<forall>self'. add_precedence_constraints md self = Inr self' \<longrightarrow>
            (\<forall>job \<in> set (jobs md). job_tasks md job \<noteq> None) \<and>
            (\<exists>new. emitted self' = emitted self @ new \<and>
               map fst new =
                 [''pj'' @ str_int job @ ''_m'' @ str_int (resource (ts ! n)).
                    job \<leftarrow> jobs md, ts \<leftarrow> [the (job_tasks md job)], n \<leftarrow> [1..<length ts]] \<and>
               (\<forall>\<sigma>. map (\<lambda>lc. holds \<sigma> (snd lc)) new =
                 [\<sigma> (''x'' @ str_int job @ ''_'' @ str_int (resource (ts ! n)))
                    - \<sigma> (''x'' @ str_int job @ ''_'' @ str_int (resource (ts ! (n - 1))))
                    \<ge> duration (ts ! (n - 1)).
                    job \<leftarrow> jobs md, ts \<leftarrow> [the (job_tasks md job)], n \<leftarrow> [1..<length ts]]) \<and>
               length new = (\<Sum>job \<leftarrow> jobs md. length (the (job_tasks md job)) - 1)))"
proof (intro conjI impI allI)
  assume h: "distinct (jobs md) \<and>
          (\<forall>job \<in> set (jobs md). \<exists>ts. job_tasks md job = Some ts \<and>
              set (map resource ts) \<subseteq> set (resources md) \<and> distinct (map resource (tl ts))) \<and>
          distinct (map fst (emitted self)) \<and>
          (\<forall>l \<in> set (map fst (emitted self)). \<not> prefix ''pj'' l)"
  have d: "distinct (map fst (emitted self @ precedence_block md))"
  proof -
    have "distinct (map fst (precedence_block md))"
    proof (rule precedence_labels_distinct)
      show "distinct (jobs md)" using h by simp
      show "distinct (map resource (tl (the (job_tasks md job))))" if "job \<in> set (jobs md)" for job
        using h that by fastforce
    qed
    moreover have "set (map fst (emitted self)) \<inter> set (map fst (precedence_block md)) = {}"
      using h precedence_labels_prefix[of _ md] by blast
    ultimately show ?thesis using h by simp
  qed
  have "\<exists>s'. add_precedence_constraints md self = Inr s' \<and> (define_variables md s' = s' \<and> cqm s' \<noteq> None) \<and>
           emitted s' = emitted self @ precedence_block md"
  proof (rule precedence_succeeds)
    show "define_variables md self = self \<and> cqm self \<noteq> None" using assms by simp
    show "\<exists>ts. job_tasks md job = Some ts \<and> set (map resource ts) \<subseteq> set (resources md)"
      if "job \<in> set (jobs md)" for job
      using h that by fastforce
    show "distinct (map fst (emitted self @ precedence_block md))" by (rule d)
  qed
  then show "\<exists>self'. add_precedence_constraints md self = Inr self'" by blast
next
  fix self'
  assume run: "add_precedence_constraints md self = Inr self'"
  show "\<forall>job \<in> set (jobs md). job_tasks md job \<noteq> None"
    by (rule precedence_jobs_defined[OF run])
  have e: "emitted self' = emitted self @ precedence_block md"
    using precedence_emitted[OF assms(1) run] by simp
  show "\<exists>new. emitted self' = emitted self @ new \<and>
               map fst new =
                 [''pj'' @ str_int job @ ''_m'' @ str_int (resource (ts ! n)).
                    job \<leftarrow> jobs md, ts \<leftarrow> [the (job_tasks md job)], n \<leftarrow> [1..<length ts]] \<and>
               (\<forall>\<sigma>. map (\<lambda>lc. holds \<sigma> (snd lc)) new =
                 [\<sigma> (''x'' @ str_int job @ ''_'' @ str_int (resource (ts ! n)))
                    - \<sigma> (''x'' @ str_int job @ ''_'' @ str_int (resource (ts ! (n - 1))))
                    \<ge> duration (ts ! (n - 1)).
                    job \<leftarrow> jobs md, ts \<leftarrow> [the (job_tasks md job)], n \<leftarrow> [1..<length ts]]) \<and>
               length new = (\<Sum>job \<leftarrow> jobs md. length (the (job_tasks md job)) - 1)"
    apply (rule exI[where x = "precedence_block md"])
    apply (intro conjI allI)
       apply (rule e)
      apply (subst precedence_block_indexed)
      apply (simp add: map_concat o_def)
     apply (subst precedence_block_indexed)
     apply (simp add: map_concat o_def)
    apply (simp add: length_concat o_def)
    done
qed

text \<open>
  The theorem applied to the instance with a single-task job: job 0 contributes its one
  constraint, job 1 none.
\<close>

theorem precedence_constraints_witness:
  "\<exists>self'. add_precedence_constraints single_data single_model = Inr self' \<and>
     map fst (emitted self') = [''pj0_m2''] \<and>
     map (\<lambda>lc. holds ((\<lambda>v. 0)(''x0_2'' := 3)) (snd lc)) (emitted self') = [True] \<and>
     map (\<lambda>lc. holds ((\<lambda>v. 0)(''x0_2'' := 2)) (snd lc)) (emitted self') = [False] \<and>
     length (emitted self') = 1"
proof -
  have c: "cqm single_model \<noteq> None" by (simp add: single_model_cqm)
  note T = precedence_constraints[OF single_model_defined c]
  have "\<exists>self'. add_precedence_constraints single_data single_model = Inr self'"
    using T
    by (simp add: single_model_emitted) (simp add: single_data_def single_tasks_def)
  then obtain self' where r: "add_precedence_constraints single_data single_model = Inr self'" by blast
  with T obtain new where e: "emitted self' = new"
    and l: "map fst new =
                 [''pj'' @ str_int job @ ''_m'' @ str_int (resource (ts ! n)).
                    job \<leftarrow> jobs single_data, ts \<leftarrow> [the (job_tasks single_data job)], n \<leftarrow> [1..<length ts]]"
    and h: "\<And>\<sigma>. map (\<lambda>lc. holds \<sigma> (snd lc)) new =
                 [\<sigma> (''x'' @ str_int job @ ''_'' @ str_int (resource (ts ! n)))
                    - \<sigma> (''x'' @ str_int job @ ''_'' @ str_int (resource (ts ! (n - 1))))
                    \<ge> duration (ts ! (n - 1)).
                    job \<leftarrow> jobs single_data, ts \<leftarrow> [the (job_tasks single_data job)], n \<leftarrow> [1..<length ts]]"
    and n: "length new = (\<Sum>job \<leftarrow> jobs single_data. length (the (job_tasks single_data job)) - 1)"
    by (auto simp: single_model_emitted)
  have u: "[1..<2] = [1]" by (simp add: upt_rec)
  have l': "map fst new = [''pj0_m2'']"
    unfolding l by (simp add: single_data_def single_tasks_def str_int_0 str_int_1 str_int_2 u)
  have h1: "map (\<lambda>lc. holds ((\<lambda>v. 0)(''x0_2'' := 3)) (snd lc)) new = [True]"
    unfolding h by (simp add: single_data_def single_tasks_def str_int_0 str_int_1 str_int_2 u)
  have h2: "map (\<lambda>lc. holds ((\<lambda>v. 0)(''x0_2'' := 2)) (snd lc)) new = [False]"
    unfolding h by (simp add: single_data_def single_tasks_def str_int_0 str_int_1 str_int_2 u)
  have n': "length new = 1"
    unfolding n by (simp add: single_data_def single_tasks_def)
  show ?thesis using r e l' h1 h2 n' by simp
qed

text \<open>
  C4. For every job the builder adds one makespan constraint, labelled
  \<open>makespan_ctr<job>\<close>, which holds under an assignment \<open>\<sigma>\<close> exactly when
  \<open>makespan - start(job, resource of the job's last task) \<ge> duration(last task)\<close>. The
  step returns when the jobs are listed once, every job has a non-empty task sequence
  whose last resource is a resource of the instance, and the labels are new; whenever it
  returns, every job has a non-empty sequence. \<open>define_objective_function\<close> sets the
  objective to the makespan variable alone, whose value is \<open>\<sigma> makespan\<close>, and leaves the
  constraints as they are.
\<close>

theorem makespan_constraint_and_objective:
  assumes "define_variables md self = self" and "cqm self \<noteq> None"
  shows "(distinct (jobs md) \<and>
          (\<forall>job \<in> set (jobs md). \<exists>ts. job_tasks md job = Some ts \<and> ts \<noteq> [] \<and>
              resource (last ts) \<in> set (resources md)) \<and>
          distinct (map fst (emitted self)) \<and>
          (\<forall>l \<in> set (map fst (emitted self)). \<not> prefix ''makespan_ctr'' l)
          \<longrightarrow> (\<exists>self'. add_makespan_constraint md self = Inr self'))
       \<and> (\<forall>self'. add_makespan_constraint md self = Inr self' \<longrightarrow>
            (\<forall>job \<in> set (jobs md). \<exists>ts. job_tasks md job = Some ts \<and> ts \<noteq> []) \<and>
            (\<exists>new. emitted self' = emitted self @ new \<and>
               map fst new = [''makespan_ctr'' @ str_int job. job \<leftarrow> jobs md] \<and>
               (\<forall>\<sigma>. map (\<lambda>lc. holds \<sigma> (snd lc)) new =
                 [\<sigma> ''makespan'' - \<sigma> (''x'' @ str_int job @ ''_'' @ str_int (resource (last ts)))
                    \<ge> duration (last ts).
                    job \<leftarrow> jobs md, ts \<leftarrow> [the (job_tasks md job)]])))
       \<and> (\<exists>self' m'. define_objective_function self = Inr self' \<and> cqm self' = Some m' \<and>
             objective m' = Var (Integer ''makespan'' 0 (get_max_makespan md)) \<and>
             (\<forall>\<sigma>. eval_expr \<sigma> (objective m') = \<sigma> ''makespan'') \<and>
             emitted self' = emitted self)"
proof (intro conjI impI allI)
  assume h: "distinct (jobs md) \<and>
          (\<forall>job \<in> set (jobs md). \<exists>ts. job_tasks md job = Some ts \<and> ts \<noteq> [] \<and>
              resource (last ts) \<in> set (resources md)) \<and>
          distinct (map fst (emitted self)) \<and>
          (\<forall>l \<in> set (map fst (emitted self)). \<not> prefix ''makespan_ctr'' l)"
  have d: "distinct (map fst (emitted self @ makespan_block md))"
  proof -
    have "distinct (map fst (makespan_block md))"
      using h by (intro makespan_labels_distinct) simp
    moreover have "set (map fst (emitted self)) \<inter> set (map fst (makespan_block md)) = {}"
      using h makespan_labels_prefix[of _ md] by blast
    ultimately show ?thesis using h by simp
  qed
  have "\<exists>s'. add_makespan_constraint md self = Inr s' \<and> (define_variables md s' = s' \<and> cqm s' \<noteq> None) \<and>
           emitted s' = emitted self @ makespan_block md"
  proof (rule makespan_succeeds)
    show "define_variables md self = self \<and> cqm self \<noteq> None" using assms by simp
    show "\<exists>ts. job_tasks md job = Some ts \<and> ts \<noteq> [] \<and> resource (last ts) \<in> set (resources md)"
      if "job \<in> set (jobs md)" for job
      using h that by blast
    show "distinct (map fst (emitted self @ makespan_block md))" by (rule d)
  qed
  then show "\<exists>self'. add_makespan_constraint md self = Inr self'" by blast
next
  fix self'
  assume run: "add_makespan_constraint md self = Inr self'"
  show "\<forall>job \<in> set (jobs md). \<exists>ts. job_tasks md job = Some ts \<and> ts \<noteq> []"
    by (rule makespan_jobs_defined[OF run])
  have e: "emitted self' = emitted self @ makespan_block md"
    using makespan_emitted[OF assms(1) run] by simp
  show "\<exists>new. emitted self' = emitted self @ new \<and>
               map fst new = [''makespan_ctr'' @ str_int job. job \<leftarrow> jobs md] \<and>
               (\<forall>\<sigma>. map (\<lambda>lc. holds \<sigma> (snd lc)) new =
                 [\<sigma> ''makespan'' - \<sigma> (''x'' @ str_int job @ ''_'' @ str_int (resource (last ts)))
                    \<ge> duration (last ts).
                    job \<leftarrow> jobs md, ts \<leftarrow> [the (job_tasks md job)]])"
    apply (rule exI[where x = "makespan_block md"])
    apply (intro conjI allI)
      apply (rule e)
     apply (simp add: map_concat o_def)
    apply (simp add: map_concat o_def)
    done
next
  from assms(2) obtain m where m: "cqm self = Some m" by auto
  show "\<exists>self' m'. define_objective_function self = Inr self' \<and> cqm self' = Some m' \<and>
             objective m' = Var (Integer ''makespan'' 0 (get_max_makespan md)) \<and>
             (\<forall>\<sigma>. eval_expr \<sigma> (objective m') = \<sigma> ''makespan'') \<and>
             emitted self' = emitted self"
    using objective_defined[OF assms(1) m] m
    by (simp add: emitted_def)
qed

text \<open>
  The theorem applied to the instance with a single-task job, which has its makespan
  constraint like the other job.
\<close>

theorem makespan_constraint_and_objective_witness:
  "(\<exists>self'. add_makespan_constraint single_data single_model = Inr self' \<and>
     map fst (emitted self') = [''makespan_ctr0'', ''makespan_ctr1''] \<and>
     map (\<lambda>lc. holds ((\<lambda>v. 0)(''makespan'' := 5, ''x0_2'' := 3)) (snd lc)) (emitted self') = [True, True] \<and>
     map (\<lambda>lc. holds ((\<lambda>v. 0)(''makespan'' := 3, ''x0_2'' := 3)) (snd lc)) (emitted self') = [False, False])
   \<and> (\<exists>self' m'. define_objective_function single_model = Inr self' \<and> cqm self' = Some m' \<and>
         objective m' = Var (Integer ''makespan'' 0 9))"
proof -
  have c: "cqm single_model \<noteq> None" by (simp add: single_model_cqm)
  note T = makespan_constraint_and_objective[OF single_model_defined c]
  have "\<exists>self'. add_makespan_constraint single_data single_model = Inr self'"
    using T
    by (simp add: single_model_emitted) (simp add: single_data_def single_tasks_def)
  then obtain self' where r: "add_makespan_constraint single_data single_model = Inr self'" by blast
  with T obtain new where e: "emitted self' = new"
    and l: "map fst new = [''makespan_ctr'' @ str_int job. job \<leftarrow> jobs single_data]"
    and h: "\<And>\<sigma>. map (\<lambda>lc. holds \<sigma> (snd lc)) new =
                 [\<sigma> ''makespan'' - \<sigma> (''x'' @ str_int job @ ''_'' @ str_int (resource (last ts)))
                    \<ge> duration (last ts).
                    job \<leftarrow> jobs single_data, ts \<leftarrow> [the (job_tasks single_data job)]]"
    by (auto simp: single_model_emitted)
  have l': "map fst new = [''makespan_ctr0'', ''makespan_ctr1'']"
    unfolding l by (simp add: single_data_def str_int_0 str_int_1)
  have h1: "map (\<lambda>lc. holds ((\<lambda>v. 0)(''makespan'' := 5, ''x0_2'' := 3)) (snd lc)) new = [True, True]"
    unfolding h by (simp add: single_data_def single_tasks_def str_int_0 str_int_1 str_int_2)
  have h2: "map (\<lambda>lc. holds ((\<lambda>v. 0)(''makespan'' := 3, ''x0_2'' := 3)) (snd lc)) new = [False, False]"
    unfolding h by (simp add: single_data_def single_tasks_def str_int_0 str_int_1 str_int_2)
  have o: "\<exists>self' m'. define_objective_function single_model = Inr self' \<and> cqm self' = Some m' \<and>
         objective m' = Var (Integer ''makespan'' 0 9)"
    using T by (auto simp: single_data_def)
  show ?thesis using r e l' h1 h2 o by simp
qed

text \<open>
  C5, as amended. \<open>define_variables\<close> creates an integer start-time variable with domain
  \<open>[0, max makespan]\<close> for every pair of a job and a resource of the data source, whether
  or not the job has a task on the resource; a binary indicator for every triple of two
  jobs and a resource, the two jobs equal included; and the one integer makespan
  variable with domain \<open>[0, max makespan]\<close>. No other key is given a variable.
\<close>

theorem define_variables_creates:
  "x (define_variables md self) (j, i) =
     (if j \<in> set (jobs md) \<and> i \<in> set (resources md)
      then Some (Integer (''x'' @ str_int j @ ''_'' @ str_int i) 0 (get_max_makespan md)) else None) \<and>
   y (define_variables md self) (j, k, i) =
     (if j \<in> set (jobs md) \<and> k \<in> set (jobs md) \<and> i \<in> set (resources md)
      then Some (Binary (''y'' @ str_int j @ ''_'' @ str_int k @ ''_'' @ str_int i)) else None) \<and>
   makespan (define_variables md self) = Some (Integer ''makespan'' 0 (get_max_makespan md))"
  by (simp only: x_define_variables y_define_variables makespan_define_variables simp_thms)

text \<open>
  The claim as stated fails on the instance with a single-task job: job 1 has no task on
  resource 1, yet the start-time variable of (1, 1) is created; and the indicator of
  job 0 with itself is created.
\<close>

theorem define_variables_counterexample:
  "resource_job_tasks single_data 1 1 = None \<and>
   x (define_variables single_data (JobShopSchedulingCQM single_data)) (1, 1) = Some (Integer ''x1_1'' 0 9) \<and>
   y (define_variables single_data (JobShopSchedulingCQM single_data)) (0, 0, 1) = Some (Binary ''y0_0_1'')"
  by (simp add: x_define_variables y_define_variables str_int_0 str_int_1)
     (simp add: single_data_def single_tasks_def)

text \<open>
  C6. When both the bilinear policy and the local MIP solver are requested,
  \<open>run_shop_scheduler\<close> raises the \<open>ValueError\<close> of the invalid configuration, whatever
  the data, the solvers and the other arguments are, and nothing has happened before: no
  solver was called and nothing was printed or warned.
\<close>

theorem bilinear_with_mip_rejected:
  assumes "allow_quadratic_constraints" and "use_mip_solver"
  shows "run_shop_scheduler start_time sample_cqm mip_sample_cqm
           job_data max_time use_mip_solver verbose allow_quadratic_constraints =
         ([], Inl (ValueError ''Cannot use quadratic constraints with MIP solver''))"
  using assms by (simp add: run_shop_scheduler_def)

text \<open>
  The theorem applied to an instance on which building the model would raise a
  \<open>KeyError\<close>, with no \<open>start_time\<close> defined and solvers that fail: the configuration
  error comes first.
\<close>

theorem bilinear_with_mip_rejected_witness:
  "run_shop_scheduler (None :: int option)
     (\<lambda>m t. Inl SolverError :: error + int sampleset) (\<lambda>m t. Inl SolverError)
     broken_data None True False True =
     ([], Inl (ValueError ''Cannot use quadratic constraints with MIP solver'')) \<and>
   build_model broken_data True = Inl KeyError"
proof -
  have "build_model broken_data True = Inl KeyError"
    by (simp add: build_model_def broken_data_def add_precedence_constraints_def)
  then show ?thesis
    using bilinear_with_mip_rejected[of True True "None :: int option"
        "\<lambda>m t. Inl SolverError :: error + int sampleset" "\<lambda>m t. Inl SolverError" broken_data None False]
    by simp
qed

text \<open>
  C7 fails on the code for the disjunctive policy. On the instance where job 1 has
  duration 0 on resource 1, the bilinear policy skips the pair of jobs on resource 1,
  and the disjunctive policy adds its two constraints for it. They exclude a schedule
  the bilinear policy admits: with job 0 on resource 1 from 0 to 3 and the zero-length
  task of job 1 at 1, the two constraints fail together for either value of the
  indicator. The same holds of the whole model: the schedule with job 0 on resource 1
  from 2 to 5 and on resource 2 from 5 to 7, job 1 on resource 2 from 0 to 4 and its
  zero-length task on resource 1 at 4, makespan 7, satisfies every constraint of the
  model built under the bilinear policy, and for either value of the indicator it
  violates the model built under the disjunctive policy.
\<close>

theorem disjunctive_keeps_zero_duration_pairs:
  "map_sum id (\<lambda>s. map fst (emitted s)) (add_quadratic_overlap_constraint zero_data zero_model) =
     Inr [''OneJobj0_j1_m2''] \<and>
   map_sum id (\<lambda>s. map fst (emitted s)) (add_disjunctive_constraints zero_data zero_model) =
     Inr [''disjunction10_j1_m1'', ''disjunction20_j1_m1'', ''disjunction10_j1_m2'', ''disjunction20_j1_m2''] \<and>
   map_sum id (\<lambda>s. map (\<lambda>lc. holds ((\<lambda>v. 0)(''x1_1'' := 1, ''x0_2'' := 4, ''y0_1_1'' := 0)) (snd lc)) (emitted s))
     (add_disjunctive_constraints zero_data zero_model) = Inr [False, True, True, True] \<and>
   map_sum id (\<lambda>s. map (\<lambda>lc. holds ((\<lambda>v. 0)(''x1_1'' := 1, ''x0_2'' := 4, ''y0_1_1'' := 1)) (snd lc)) (emitted s))
     (add_disjunctive_constraints zero_data zero_model) = Inr [True, False, True, True] \<and>
   map_sum id (\<lambda>s. map (\<lambda>lc. holds ((\<lambda>v. 0)(''x1_1'' := 1, ''x0_2'' := 4)) (snd lc)) (emitted s))
     (add_quadratic_overlap_constraint zero_data zero_model) = Inr [True] \<and>
   map_sum id (\<lambda>s. list_all (\<lambda>lc. holds ((\<lambda>v. 0)(''x0_1'' := 2, ''x0_2'' := 5, ''x1_1'' := 4, ''makespan'' := 7)) (snd lc)) (emitted s))
     (build_model zero_data True) = Inr True \<and>
   map_sum id (\<lambda>s. list_all (\<lambda>lc. holds ((\<lambda>v. 0)(''x0_1'' := 2, ''x0_2'' := 5, ''x1_1'' := 4, ''makespan'' := 7, ''y0_1_1'' := 0)) (snd lc)) (emitted s))
     (build_model zero_data False) = Inr False \<and>
   map_sum id (\<lambda>s. list_all (\<lambda>lc. holds ((\<lambda>v. 0)(''x0_1'' := 2, ''x0_2'' := 5, ''x1_1'' := 4, ''makespan'' := 7, ''y0_1_1'' := 1)) (snd lc)) (emitted s))
     (build_model zero_data False) = Inr False"
  by code_simp

text \<open>
  C9 fails on the code for the local MIP solver: \<open>call_mip_solver\<close> never assigns
  \<open>completion_time\<close>. On the example instance, with the answer whose makespan is 5, the
  run through the MIP solver reports the completion time 0 the constructor stored; the
  run through the hybrid solver with the same answer reports 5. It is the same with the
  answer of makespan 6, which satisfies every constraint of the model: 0 through the MIP
  solver, 6 through the hybrid solver. (The lemma \<open>call_mip_solver_completion_time\<close>
  shows it for every answer.)
\<close>

theorem mip_completion_time_not_reported:
  "item (sample (hd mip_answer)) ''makespan'' = Inr 5 \<and>
   last (fst (run_shop_scheduler (Some (0 :: int)) (\<lambda>m t. Inr mip_answer) (\<lambda>m t. Inr mip_answer)
                example_data None True True False)) = PrintResults 0 10 \<and>
   snd (run_shop_scheduler (Some (0 :: int)) (\<lambda>m t. Inr mip_answer) (\<lambda>m t. Inr mip_answer)
                example_data None True True False) =
     Inr [(0, \<lparr>resource = 1, duration = 3\<rparr>, 0, 3, 1),
          (0, \<lparr>resource = 2, duration = 2\<rparr>, 3, 5, 2),
          (1, \<lparr>resource = 2, duration = 4\<rparr>, 0, 4, 2),
          (1, \<lparr>resource = 1, duration = 1\<rparr>, 4, 5, 1)] \<and>
   last (fst (run_shop_scheduler (Some (0 :: int)) (\<lambda>m t. Inr mip_answer) (\<lambda>m t. Inr mip_answer)
                example_data None False True False)) = PrintResults 5 10 \<and>
   item (sample (hd mip_feasible_answer)) ''makespan'' = Inr 6 \<and>
   map_sum id (\<lambda>s. list_all (\<lambda>lc. holds (\<lambda>l. case map_of (sample (hd mip_feasible_answer)) l of None \<Rightarrow> 0 | Some v \<Rightarrow> v) (snd lc)) (emitted s))
     (build_model example_data False) = Inr True \<and>
   last (fst (run_shop_scheduler (Some (0 :: int)) (\<lambda>m t. Inr mip_feasible_answer) (\<lambda>m t. Inr mip_feasible_answer)
                example_data None True True False)) = PrintResults 0 10 \<and>
   last (fst (run_shop_scheduler (Some (0 :: int)) (\<lambda>m t. Inr mip_feasible_answer) (\<lambda>m t. Inr mip_feasible_answer)
                example_data None False True False)) = PrintResults 6 10"
  by code_simp

text \<open>
  C8. \<open>call_cqm_solver\<close> submits the model to the hybrid sampler. When the sample set it
  returns has no feasible row, a warning is emitted, and only then; the step goes on
  with the row of lowest energy of the whole set. When there is a feasible row, the row
  chosen is feasible and of lowest energy among the feasible rows. In both cases, when
  the step returns, \<open>best_sample\<close> is the chosen row's assignment, \<open>completion_time\<close> is
  its value of \<open>makespan\<close>, and the schedule table has, for every job and resource, the
  row of the task with the start read from the assignment. The step returns whenever the
  sample set is not empty and every row assigns \<open>makespan\<close> and the start variable of
  every job and resource, each of which has a task: feasibility plays no part.
\<close>

theorem hybrid_solver_selection:
  fixes sample_cqm :: "cqm_model option \<Rightarrow> int option \<Rightarrow> error + ('e::linorder) sampleset"
  assumes "sample_cqm (cqm self) time_limit = Inr raw"
  shows "fst (call_cqm_solver sample_cqm time_limit md self) =
           SampleCQM (cqm self) time_limit #
             (if \<exists>r \<in> set raw. is_feasible r then [] else [Warn ''Warning: Did not find feasible solution''])
       \<and> (\<forall>self'. snd (call_cqm_solver sample_cqm time_limit md self) = Inr self' \<longrightarrow>
            (\<exists>r \<in> set raw. best_sample self' = sample r \<and>
               (if \<exists>r' \<in> set raw. is_feasible r'
                then is_feasible r \<and> (\<forall>r' \<in> set raw. is_feasible r' \<longrightarrow> energy r \<le> energy r')
                else (\<forall>r' \<in> set raw. energy r \<le> energy r'))) \<and>
            item (best_sample self') ''makespan'' = Inr (completion_time self') \<and>
            (\<forall>j \<in> set (jobs md). \<forall>i \<in> set (resources md). \<exists>t v start.
               resource_job_tasks md j i = Some t \<and> x self (j, i) = Some v \<and>
               item (best_sample self') (label v) = Inr start \<and>
               (j, t, start, start + duration t, i) \<in> set (solution_as_dataframe self')))
       \<and> (raw \<noteq> [] \<and>
          (\<forall>r \<in> set raw. ''makespan'' \<in> fst ` set (sample r) \<and>
             (\<forall>j \<in> set (jobs md). \<forall>i \<in> set (resources md).
                resource_job_tasks md j i \<noteq> None \<and>
                (\<exists>v. x self (j, i) = Some v \<and> label v \<in> fst ` set (sample r))))
          \<longrightarrow> (\<exists>self'. snd (call_cqm_solver sample_cqm time_limit md self) = Inr self'))"
proof (intro conjI allI impI)
  show "fst (call_cqm_solver sample_cqm time_limit md self) =
           SampleCQM (cqm self) time_limit #
             (if \<exists>r \<in> set raw. is_feasible r then [] else [Warn ''Warning: Did not find feasible solution''])"
    by (rule call_cqm_solver_events[where sample_cqm = sample_cqm and self = self and time_limit = time_limit, OF assms])
next
  fix self'
  assume "snd (call_cqm_solver sample_cqm time_limit md self) = Inr self'"
  then obtain r sol v where
    r: "first_ss (if \<exists>r \<in> set raw. is_feasible r then filter is_feasible raw else raw) = Inr r"
    and sol: "for_each [(i, j). i \<leftarrow> resources md, j \<leftarrow> jobs md] (extract_item md self (sample r)) [] = Inr sol"
    and v: "item (sample r) ''makespan'' = Inr v"
    and s: "self' = self\<lparr>best_sample := sample r, solution := sol, completion_time := v\<rparr>"
    unfolding call_cqm_solver_result[where sample_cqm = sample_cqm and self = self and time_limit = time_limit, OF assms]
    by (auto split: sum.splits)
  note m = first_ss_Inr[OF r]
  show "\<exists>r \<in> set raw. best_sample self' = sample r \<and>
               (if \<exists>r' \<in> set raw. is_feasible r'
                then is_feasible r \<and> (\<forall>r' \<in> set raw. is_feasible r' \<longrightarrow> energy r \<le> energy r')
                else (\<forall>r' \<in> set raw. energy r \<le> energy r'))"
  proof (cases "\<exists>r' \<in> set raw. is_feasible r'")
    case True
    with m have "r \<in> set raw" "is_feasible r" "\<forall>r' \<in> set raw. is_feasible r' \<longrightarrow> energy r \<le> energy r'"
      by auto
    with True s show ?thesis by auto
  next
    case False
    with m have "r \<in> set raw" "\<forall>r' \<in> set raw. energy r \<le> energy r'" by auto
    with False s show ?thesis by auto
  qed
  show "item (best_sample self') ''makespan'' = Inr (completion_time self')"
    using v s by simp
  show "\<forall>j \<in> set (jobs md). \<forall>i \<in> set (resources md). \<exists>t v start.
               resource_job_tasks md j i = Some t \<and> x self (j, i) = Some v \<and>
               item (best_sample self') (label v) = Inr start \<and>
               (j, t, start, start + duration t, i) \<in> set (solution_as_dataframe self')"
  proof (intro ballI)
    fix j i
    assume "j \<in> set (jobs md)" "i \<in> set (resources md)"
    then have "(i, j) \<in> set [(i, j). i \<leftarrow> resources md, j \<leftarrow> jobs md]" by auto
    with extract_sound[OF sol] obtain t w start where
      t: "resource_job_tasks md j i = Some t" and w: "x self (j, i) = Some w"
      and st: "item (sample r) (label w) = Inr start"
      and mo: "map_of sol (j, i) = Some (t, start, duration t)"
      by fastforce
    from mo have "((j, i), (t, start, duration t)) \<in> set sol" by (rule map_of_SomeD)
    then have "(\<lambda>((j, i), (t, start, dur)). (j, t, start, start + dur, i)) ((j, i), (t, start, duration t))
                 \<in> set (map (\<lambda>((j, i), (t, start, dur)). (j, t, start, start + dur, i)) sol)"
      by (intro imageI[of _ "set sol", folded set_map])
    then have "(j, t, start, start + duration t, i) \<in> set (solution_as_dataframe self')"
      by (simp add: solution_as_dataframe_def s)
    with t w st s show "\<exists>t v start.
               resource_job_tasks md j i = Some t \<and> x self (j, i) = Some v \<and>
               item (best_sample self') (label v) = Inr start \<and>
               (j, t, start, start + duration t, i) \<in> set (solution_as_dataframe self')"
      by auto
  qed
next
  assume h: "raw \<noteq> [] \<and>
          (\<forall>r \<in> set raw. ''makespan'' \<in> fst ` set (sample r) \<and>
             (\<forall>j \<in> set (jobs md). \<forall>i \<in> set (resources md).
                resource_job_tasks md j i \<noteq> None \<and>
                (\<exists>v. x self (j, i) = Some v \<and> label v \<in> fst ` set (sample r))))"
  have "(if \<exists>r \<in> set raw. is_feasible r then filter is_feasible raw else raw) \<noteq> []"
    using h by (auto simp: filter_empty_conv)
  from first_ss_nonempty[OF this] obtain r where
    r: "first_ss (if \<exists>r \<in> set raw. is_feasible r then filter is_feasible raw else raw) = Inr r"
    by blast
  from first_ss_Inr[OF r] have rr: "r \<in> set raw" by (auto split: if_splits)
  have "\<exists>sol. for_each [(i, j). i \<leftarrow> resources md, j \<leftarrow> jobs md] (extract_item md self (sample r)) [] = Inr sol"
  proof (rule extract_total)
    fix a
    assume "a \<in> set [(i, j). i \<leftarrow> resources md, j \<leftarrow> jobs md]"
    then have "fst a \<in> set (resources md)" "snd a \<in> set (jobs md)" by auto
    with h rr show "resource_job_tasks md (snd a) (fst a) \<noteq> None \<and>
             (\<exists>v. x self (snd a, fst a) = Some v \<and> label v \<in> fst ` set (sample r))"
      by blast
  qed
  then obtain sol where
    sol: "for_each [(i, j). i \<leftarrow> resources md, j \<leftarrow> jobs md] (extract_item md self (sample r)) [] = Inr sol"
    by blast
  from h rr have "''makespan'' \<in> fst ` set (sample r)" by blast
  from item_total[OF this] obtain v where v: "item (sample r) ''makespan'' = Inr v" by blast
  show "\<exists>self'. snd (call_cqm_solver sample_cqm time_limit md self) = Inr self'"
    unfolding call_cqm_solver_result[where sample_cqm = sample_cqm and self = self and time_limit = time_limit, OF assms]
    by (simp add: r sol v)
qed

text \<open>
  The theorem applied to the example instance and the answer without a feasible
  assignment: the warning is emitted, the step returns, and what it keeps is the
  assignment of lower energy, whose makespan is 4.
\<close>

theorem hybrid_solver_selection_witness:
  "fst (call_cqm_solver (\<lambda>m t. Inr infeasible_answer) None example_data example_model) =
     [SampleCQM (cqm example_model) None, Warn ''Warning: Did not find feasible solution''] \<and>
   (\<exists>self'. snd (call_cqm_solver (\<lambda>m t. Inr infeasible_answer) None example_data example_model) = Inr self' \<and>
      best_sample self' = sample (infeasible_answer ! 1) \<and> completion_time self' = 4)"
proof -
  have a: "(\<lambda>m t. Inr infeasible_answer) (cqm example_model) (None :: int option) = (Inr infeasible_answer :: error + int sampleset)"
    by simp
  note T = hybrid_solver_selection[of "\<lambda>m t. Inr infeasible_answer" example_model None infeasible_answer example_data, OF a]
  have nf: "\<not> (\<exists>r \<in> set infeasible_answer. is_feasible r)"
    by (simp add: infeasible_answer_def)
  have ev: "fst (call_cqm_solver (\<lambda>m t. Inr infeasible_answer) None example_data example_model) =
     [SampleCQM (cqm example_model) None, Warn ''Warning: Did not find feasible solution'']"
    using T nf by simp
  have cover: "infeasible_answer \<noteq> [] \<and>
          (\<forall>r \<in> set infeasible_answer. ''makespan'' \<in> fst ` set (sample r) \<and>
             (\<forall>j \<in> set (jobs example_data). \<forall>i \<in> set (resources example_data).
                resource_job_tasks example_data j i \<noteq> None \<and>
                (\<exists>v. x example_model (j, i) = Some v \<and> label v \<in> fst ` set (sample r))))"
    by (simp add: infeasible_answer_def x_defined[OF example_model_defined] str_int_0 str_int_1 str_int_2)
       (simp add: example_data_def example_tasks_def str_int_0 str_int_1 str_int_2)
  with T obtain self' where
    r: "snd (call_cqm_solver (\<lambda>m t. Inr infeasible_answer) None example_data example_model) = Inr self'"
    by blast
  with T nf obtain row where row: "row \<in> set infeasible_answer" "best_sample self' = sample row"
    "\<forall>r' \<in> set infeasible_answer. energy row \<le> energy r'"
    and c: "item (best_sample self') ''makespan'' = Inr (completion_time self')"
    by auto
  from row(1,3) have "row = infeasible_answer ! 1"
    by (auto simp: infeasible_answer_def)
  with row(2) c have "best_sample self' = sample (infeasible_answer ! 1)" "completion_time self' = 4"
    by (auto simp: infeasible_answer_def item_def)
  with ev r show ?thesis by blast
qed

text \<open>
  C10. In a model built by the steps of \<open>run_shop_scheduler\<close>, under either policy,
  every variable of every constraint is the makespan variable, a start-time variable, or
  an indicator \<open>y[(j,k,i)]\<close> with \<open>j < k\<close> of two jobs and a resource of the instance;
  the objective is the makespan variable. \<open>define_variables\<close> has created the indicator
  of every triple of two jobs and a resource, the triples \<open>(j,k,i)\<close> with \<open>k \<le> j\<close>
  included, but no such indicator occurs in a constraint or in the objective. So two
  assignments that differ only on indicators \<open>y[(j,k,i)]\<close> with \<open>k \<le> j\<close> satisfy the
  same constraints and give the objective the same value: a feasible assignment stays
  feasible whatever the values of those variables.
\<close>

theorem unused_indicators:
  assumes "build_model md quad = Inr self"
  shows "\<exists>m. cqm self = Some m \<and>
     (\<forall>lc \<in> set (constraints m). \<forall>v \<in> set (variables_of (snd lc)).
        v = Integer ''makespan'' 0 (get_max_makespan md) \<or>
        (\<exists>j i. v = Integer (''x'' @ str_int j @ ''_'' @ str_int i) 0 (get_max_makespan md)) \<or>
        (\<exists>j \<in> set (jobs md). \<exists>k \<in> set (jobs md). \<exists>i \<in> set (resources md).
            j < k \<and> v = Binary (''y'' @ str_int j @ ''_'' @ str_int k @ ''_'' @ str_int i))) \<and>
     variables (objective m) = [Integer ''makespan'' 0 (get_max_makespan md)] \<and>
     (\<forall>j \<in> set (jobs md). \<forall>k \<in> set (jobs md). \<forall>i \<in> set (resources md).
        y self (j, k, i) = Some (Binary (''y'' @ str_int j @ ''_'' @ str_int k @ ''_'' @ str_int i))) \<and>
     (\<forall>j k i. k \<le> j \<longrightarrow>
        Binary (''y'' @ str_int j @ ''_'' @ str_int k @ ''_'' @ str_int i) \<notin> set (variables (objective m)) \<and>
        (\<forall>lc \<in> set (constraints m).
           Binary (''y'' @ str_int j @ ''_'' @ str_int k @ ''_'' @ str_int i) \<notin> set (variables_of (snd lc)))) \<and>
     (\<forall>\<sigma> \<sigma>'.
        (\<forall>l. \<sigma> l \<noteq> \<sigma>' l \<longrightarrow>
           (\<exists>j k i. k \<le> j \<and> l = ''y'' @ str_int j @ ''_'' @ str_int k @ ''_'' @ str_int i)) \<longrightarrow>
        feasible m \<sigma> = feasible m \<sigma>' \<and> eval_expr \<sigma> (objective m) = eval_expr \<sigma>' (objective m))"
proof -
  from build_model_emitted[OF assms] obtain m where inv: "define_variables md self = self"
    and m: "cqm self = Some m" and ob: "objective m = Var (makespan_var md)"
    by blast
  note vars = build_model_variables[OF assms m]
  have a: "\<forall>lc \<in> set (constraints m). \<forall>v \<in> set (variables_of (snd lc)).
        v = makespan_var md \<or> (\<exists>j i. v = x_var md j i) \<or>
        (\<exists>j \<in> set (jobs md). \<exists>k \<in> set (jobs md). \<exists>i \<in> set (resources md). j < k \<and> v = y_var j k i)"
    using vars by blast
  have b: "variables (objective m) = [makespan_var md]" by (simp add: ob)
  have c: "\<forall>j \<in> set (jobs md). \<forall>k \<in> set (jobs md). \<forall>i \<in> set (resources md).
        y self (j, k, i) = Some (y_var j k i)"
    by (simp add: y_defined[OF inv])
  have d: "y_var j k i \<notin> set (variables (objective m)) \<and>
        (\<forall>lc \<in> set (constraints m). y_var j k i \<notin> set (variables_of (snd lc)))" if le: "k \<le> j" for j k i
  proof (intro conjI ballI notI)
    assume "y_var j k i \<in> set (variables (objective m))"
    then show False by (simp add: b)
  next
    fix lc
    assume lc: "lc \<in> set (constraints m)" and v: "y_var j k i \<in> set (variables_of (snd lc))"
    from vars[OF lc v] obtain j' k' i' where "j' < k'" "y_var j k i = y_var j' k' i'"
      by auto
    with y_var_order[OF this(2) le] show False by simp
  qed
  have e: "feasible m \<sigma> = feasible m \<sigma>' \<and> eval_expr \<sigma> (objective m) = eval_expr \<sigma>' (objective m)"
    if diff: "\<forall>l. \<sigma> l \<noteq> \<sigma>' l \<longrightarrow>
           (\<exists>j k i. k \<le> j \<and> l = ''y'' @ str_int j @ ''_'' @ str_int k @ ''_'' @ str_int i)" for \<sigma> \<sigma>'
  proof -
    have same: "\<sigma> (label v) = \<sigma>' (label v)"
      if "v = makespan_var md \<or> (\<exists>j i. v = x_var md j i) \<or> (\<exists>j k i. j < k \<and> v = y_var j k i)" for v
    proof (rule ccontr)
      assume "\<sigma> (label v) \<noteq> \<sigma>' (label v)"
      with diff obtain j k i where le: "k \<le> j"
        and l: "label v = ''y'' @ str_int j @ ''_'' @ str_int k @ ''_'' @ str_int i" by blast
      from that l have "\<exists>j' k' i'. j' < k' \<and> v = y_var j' k' i'" by auto
      then obtain j' k' i' where lt: "j' < k'" and v: "v = y_var j' k' i'" by blast
      from l v have "y_var j k i = y_var j' k' i'" by simp
      from y_var_order[OF this le] lt show False by simp
    qed
    have h: "holds \<sigma> (snd lc) = holds \<sigma>' (snd lc)" if "lc \<in> set (constraints m)" for lc
    proof (rule holds_cong)
      fix v
      assume "v \<in> set (variables_of (snd lc))"
      from vars[OF that this] show "\<sigma> (label v) = \<sigma>' (label v)"
        by (intro same) blast
    qed
    have "feasible m \<sigma> = feasible m \<sigma>'"
      unfolding feasible_def list_all_iff using h by blast
    moreover have "eval_expr \<sigma> (objective m) = eval_expr \<sigma>' (objective m)"
      unfolding ob using same[of "makespan_var md"] by simp
    ultimately show ?thesis by simp
  qed
  show ?thesis
    apply (rule exI[of _ m])
    apply (intro conjI)
         apply (rule m)
        apply (rule a)
       apply (rule b)
      apply (rule c)
     apply (intro allI impI, erule d)
    apply (intro allI impI, erule e)
    done
qed

text \<open>
  The theorem applied to the model of the example instance under the disjunctive policy:
  the indicators of \<open>(1,0,1)\<close> and \<open>(0,0,1)\<close> exist, and the assignment of the feasible
  answer stays feasible when they are given the values 1 and 7.
\<close>

theorem unused_indicators_witness:
  "\<exists>self m. build_model example_data False = Inr self \<and> cqm self = Some m \<and>
     y self (1, 0, 1) = Some (Binary ''y1_0_1'') \<and> y self (0, 0, 1) = Some (Binary ''y0_0_1'') \<and>
     feasible m (\<lambda>l. case map_of (sample (hd mip_feasible_answer)) l of None \<Rightarrow> 0 | Some v \<Rightarrow> v) \<and>
     feasible m ((\<lambda>l. case map_of (sample (hd mip_feasible_answer)) l of None \<Rightarrow> 0 | Some v \<Rightarrow> v)
                   (''y1_0_1'' := 1, ''y0_0_1'' := 7))"
proof -
  let ?\<sigma> = "\<lambda>l. case map_of (sample (hd mip_feasible_answer)) l of None \<Rightarrow> 0 | Some v \<Rightarrow> v"
  have "\<not> isl (build_model example_data False)" by code_simp
  then obtain self where b: "build_model example_data False = Inr self"
    by (cases "build_model example_data False") auto
  from unused_indicators[OF b] obtain m where m: "cqm self = Some m"
    and c: "\<forall>j \<in> set (jobs example_data). \<forall>k \<in> set (jobs example_data). \<forall>i \<in> set (resources example_data).
        y self (j, k, i) = Some (Binary (''y'' @ str_int j @ ''_'' @ str_int k @ ''_'' @ str_int i))"
    and e0: "\<forall>\<sigma> \<sigma>'. (\<forall>l. \<sigma> l \<noteq> \<sigma>' l \<longrightarrow>
           (\<exists>j k i. k \<le> j \<and> l = ''y'' @ str_int j @ ''_'' @ str_int k @ ''_'' @ str_int i)) \<longrightarrow>
        feasible m \<sigma> = feasible m \<sigma>' \<and> eval_expr \<sigma> (objective m) = eval_expr \<sigma>' (objective m)"
    by (elim exE conjE) (rule that; assumption)
  have e: "feasible m \<sigma> = feasible m \<sigma>'"
    if "\<forall>l. \<sigma> l \<noteq> \<sigma>' l \<longrightarrow>
           (\<exists>j k i. k \<le> j \<and> l = ''y'' @ str_int j @ ''_'' @ str_int k @ ''_'' @ str_int i)" for \<sigma> \<sigma>'
    using e0[rule_format, OF that[rule_format]] by (rule conjunct1)
  have y1: "y self (1, 0, 1) = Some (Binary ''y1_0_1'')" and y2: "y self (0, 0, 1) = Some (Binary ''y0_0_1'')"
    using c by (simp_all add: example_data_def str_int_0 str_int_1)
  have "map_sum id (\<lambda>s. list_all (\<lambda>lc. holds ?\<sigma> (snd lc)) (emitted s)) (build_model example_data False) = Inr True"
    by code_simp
  then have f: "feasible m ?\<sigma>"
    by (simp add: b m emitted_def feasible_def)
  have "feasible m ?\<sigma> = feasible m (?\<sigma>(''y1_0_1'' := 1, ''y0_0_1'' := 7))"
  proof (rule e, intro allI impI)
    fix l
    assume "?\<sigma> l \<noteq> (?\<sigma>(''y1_0_1'' := 1, ''y0_0_1'' := 7)) l"
    then have "l = ''y1_0_1'' \<or> l = ''y0_0_1''" by (auto split: if_splits)
    then show "\<exists>j k i. k \<le> j \<and> l = ''y'' @ str_int j @ ''_'' @ str_int k @ ''_'' @ str_int i"
    proof
      assume "l = ''y1_0_1''"
      then have "(0::int) \<le> 1 \<and> l = ''y'' @ str_int 1 @ ''_'' @ str_int 0 @ ''_'' @ str_int 1"
        by (simp add: str_int_0 str_int_1)
      then show ?thesis by blast
    next
      assume "l = ''y0_0_1''"
      then have "(0::int) \<le> 0 \<and> l = ''y'' @ str_int 0 @ ''_'' @ str_int 0 @ ''_'' @ str_int 1"
        by (simp add: str_int_0 str_int_1)
      then show ?thesis by blast
    qed
  qed
  with f have "feasible m (?\<sigma>(''y1_0_1'' := 1, ''y0_0_1'' := 7))" by simp
  with b m y1 y2 f show ?thesis by blast
qed

end
